theory Spec2Isabelle
  imports Main "HOL-Library.Multiset"
begin

section \<open>JavaScript values used by the application\<close>

text \<open>
  A JavaScript string is a sequence of UTF-16 code units; a code unit is modelled as a
  natural number. \<open>lit\<close> writes an ASCII literal of the source as such a sequence.
\<close>

type_synonym jsstring = "nat list"

definition lit :: "string \<Rightarrow> jsstring" where
  "lit s = map of_char s"

text \<open>\<open>String(n)\<close> for a non-negative integer: its decimal digits.\<close>

fun decimal :: "nat \<Rightarrow> jsstring" where
  "decimal n = (if n < 10 then [48 + n] else decimal (n div 10) @ [48 + n mod 10])"

declare decimal.simps [simp del]

text \<open>\<open>Array.prototype.join\<close> on an array of strings.\<close>

fun join :: "jsstring \<Rightarrow> jsstring list \<Rightarrow> jsstring" where
  "join sep [] = []"
| "join sep [x] = x"
| "join sep (x # y # ys) = x @ sep @ join sep (y # ys)"

text \<open>
  The comparison of two strings by their code units, as the relational operators and the
  default order of \<open>Array.prototype.sort\<close> make it: negative, zero or positive.
\<close>

fun codeUnitCompare :: "jsstring \<Rightarrow> jsstring \<Rightarrow> int" where
  "codeUnitCompare [] [] = 0"
| "codeUnitCompare [] (y # ys) = - 1"
| "codeUnitCompare (x # xs) [] = 1"
| "codeUnitCompare (x # xs) (y # ys) =
     (if x < y then - 1 else if y < x then 1 else codeUnitCompare xs ys)"

text \<open>The exceptions that the modelled code can meet.\<close>

datatype error = TypeError | SyntaxError | SecurityError | QuotaExceededError | FetchError

text \<open>
  The values that \<open>JSON.parse\<close> can return. Numbers are restricted to the integers (species
  ids are integers); fractional numbers are outside the model.
\<close>

datatype json =
    JNull
  | JBool bool
  | JNum int
  | JStr jsstring
  | JArr "json list"
  | JObj "(jsstring \<times> json) list"

fun isPrimitive :: "json \<Rightarrow> bool" where
  "isPrimitive (JArr _) = False"
| "isPrimitive (JObj _) = False"
| "isPrimitive _ = True"

text \<open>\<open>Array.isArray(v) ? v : []\<close>\<close>

fun arrayOrEmpty :: "json \<Rightarrow> json list" where
  "arrayOrEmpty (JArr xs) = xs"
| "arrayOrEmpty _ = []"

text \<open>
  The functions of the JavaScript platform that the source calls and whose result depends
  on tables that are not part of the repository (Unicode case mapping, locale collation,
  the JSON grammar). The source is modelled over an arbitrary platform; \<open>refPlatform\<close>
  below is one concrete platform on which the model can be run.
\<close>

record platform =
  localeCompare :: "jsstring \<Rightarrow> jsstring \<Rightarrow> int"
  toUpperCase :: "jsstring \<Rightarrow> jsstring"
  toLowerCase :: "jsstring \<Rightarrow> jsstring"
  JSON_parse :: "jsstring \<Rightarrow> error + json"
  JSON_stringify :: "json \<Rightarrow> jsstring"

subsection \<open>Set objects\<close>

text \<open>
  A JavaScript \<open>Set\<close> keeps its elements in insertion order and compares them with
  SameValueZero: primitives by value, arrays and objects by reference. Every array or
  object that reaches a set of this application was freshly made by \<open>JSON.parse\<close>, so it
  is never the same reference as an element already present.
\<close>

type_synonym jsset = "json list"

definition setHas :: "jsset \<Rightarrow> json \<Rightarrow> bool" where
  "setHas s v = (isPrimitive v \<and> v \<in> set s)"

definition setAdd :: "jsset \<Rightarrow> json \<Rightarrow> jsset" where
  "setAdd s v = (if setHas s v then s else s @ [v])"

definition setDelete :: "jsset \<Rightarrow> json \<Rightarrow> jsset" where
  "setDelete s v = (if isPrimitive v then filter (\<lambda>x. x \<noteq> v) s else s)"

text \<open>\<open>new Set(iterable)\<close> adds the elements one by one; \<open>Array.from(set)\<close> lists them.\<close>

definition newSet :: "json list \<Rightarrow> jsset" where
  "newSet xs = foldl setAdd [] xs"

definition arrayFrom :: "jsset \<Rightarrow> json list" where
  "arrayFrom s = s"

subsection \<open>localStorage\<close>

text \<open>
  Web storage either works, or refuses writes (quota exceeded), or refuses every access
  (for instance when storage is disabled for the page).
\<close>

datatype availability = Available | QuotaExceeded | AccessDenied

record storage =
  access :: availability
  entries :: "jsstring \<rightharpoonup> jsstring"

definition getItem :: "storage \<Rightarrow> jsstring \<Rightarrow> error + jsstring option" where
  "getItem st k = (if access st = AccessDenied then Inl SecurityError else Inr (entries st k))"

definition setItem :: "storage \<Rightarrow> jsstring \<Rightarrow> jsstring \<Rightarrow> error + storage" where
  "setItem st k v =
     (case access st of
        AccessDenied \<Rightarrow> Inl SecurityError
      | QuotaExceeded \<Rightarrow> Inl QuotaExceededError
      | Available \<Rightarrow> Inr (st\<lparr>entries := (entries st)(k \<mapsto> v)\<rparr>))"

section \<open>A reference platform\<close>

text \<open>
  One concrete platform, used to run the model on concrete inputs: ASCII case mapping,
  comparison by code units, and a JSON codec for the texts the application itself writes.
  \<open>refParse\<close> accepts, without white space, \<open>null\<close>, \<open>true\<close>, \<open>false\<close>, an integer and a
  flat array of integers, and rejects every other text.
\<close>

definition asciiUpper :: "nat \<Rightarrow> nat" where
  "asciiUpper c = (if 97 \<le> c \<and> c \<le> 122 then c - 32 else c)"

definition asciiLower :: "nat \<Rightarrow> nat" where
  "asciiLower c = (if 65 \<le> c \<and> c \<le> 90 then c + 32 else c)"

fun refStringify :: "json \<Rightarrow> jsstring" where
  "refStringify JNull = lit ''null''"
| "refStringify (JBool b) = (if b then lit ''true'' else lit ''false'')"
| "refStringify (JNum i) = (if i < 0 then lit ''-'' @ decimal (nat (- i)) else decimal (nat i))"
| "refStringify (JStr s) = lit ''\"'' @ s @ lit ''\"''"
| "refStringify (JArr xs) = lit ''['' @ join (lit '','') (map refStringify xs) @ lit '']''"
| "refStringify (JObj kvs) =
     lit ''{'' @ join (lit '','')
        (map (\<lambda>kv. lit ''\"'' @ fst kv @ lit ''\":'' @ refStringify (snd kv)) kvs) @ lit ''}''"

text \<open>\<open>splitAt sep s\<close> cuts \<open>s\<close> at every occurrence of the code unit \<open>sep\<close>.\<close>

fun splitAt :: "nat \<Rightarrow> jsstring \<Rightarrow> jsstring list" where
  "splitAt sep [] = [[]]"
| "splitAt sep (c # cs) =
     (case splitAt sep cs of
        [] \<Rightarrow> [[c]]
      | w # ws \<Rightarrow> if c = sep then [] # w # ws else (c # w) # ws)"

definition isDigit :: "nat \<Rightarrow> bool" where
  "isDigit c = (48 \<le> c \<and> c \<le> 57)"

definition digitsValue :: "jsstring \<Rightarrow> nat" where
  "digitsValue s = foldl (\<lambda>a c. 10 * a + (c - 48)) 0 s"

definition parseNatLit :: "jsstring \<Rightarrow> nat option" where
  "parseNatLit s =
     (if s \<noteq> [] \<and> list_all isDigit s \<and> (hd s = 48 \<longrightarrow> length s = 1)
      then Some (digitsValue s) else None)"

definition parseIntLit :: "jsstring \<Rightarrow> int option" where
  "parseIntLit s =
     (case s of
        [] \<Rightarrow> None
      | c # cs \<Rightarrow> if c = 45 then map_option (\<lambda>n. - int n) (parseNatLit cs)
                  else map_option int (parseNatLit s))"

fun sequenceOpt :: "'a option list \<Rightarrow> 'a list option" where
  "sequenceOpt [] = Some []"
| "sequenceOpt (x # xs) =
     (case x of
        None \<Rightarrow> None
      | Some y \<Rightarrow> (case sequenceOpt xs of None \<Rightarrow> None | Some ys \<Rightarrow> Some (y # ys)))"

definition refParse :: "jsstring \<Rightarrow> error + json" where
  "refParse s =
     (if s = lit ''null'' then Inr JNull
      else if s = lit ''true'' then Inr (JBool True)
      else if s = lit ''false'' then Inr (JBool False)
      else (case parseIntLit s of
              Some i \<Rightarrow> Inr (JNum i)
            | None \<Rightarrow>
                if 2 \<le> length s \<and> hd s = 91 \<and> last s = 93
                then (let inner = butlast (tl s)
                      in if inner = [] then Inr (JArr [])
                         else (case sequenceOpt (map parseIntLit (splitAt 44 inner)) of
                                 Some ns \<Rightarrow> Inr (JArr (map JNum ns))
                               | None \<Rightarrow> Inl SyntaxError))
                else Inl SyntaxError))"

definition refPlatform :: platform where
  "refPlatform =
     \<lparr>localeCompare = codeUnitCompare,
      toUpperCase = map asciiUpper,
      toLowerCase = map asciiLower,
      JSON_parse = refParse,
      JSON_stringify = refStringify\<rparr>"

section \<open>The persisted caught set\<close>

definition LS_KEY :: jsstring where
  "LS_KEY = lit ''livingDex:caught''"

text \<open>
  The body of the \<open>try\<close> block of \<open>loadCaught\<close>: an empty or missing entry gives the empty
  set, a parsed value that is not an array gives the empty set, an exception of
  \<open>getItem\<close> or \<open>JSON.parse\<close> leaves the block.
\<close>

definition loadCaught_try :: "platform \<Rightarrow> storage \<Rightarrow> error + jsset" where
  "loadCaught_try P st =
     (case getItem st LS_KEY of
        Inl e \<Rightarrow> Inl e
      | Inr None \<Rightarrow> Inr (newSet [])
      | Inr (Some raw) \<Rightarrow>
          if raw = [] then Inr (newSet [])
          else (case JSON_parse P raw of
                  Inl e \<Rightarrow> Inl e
                | Inr arr \<Rightarrow> Inr (newSet (arrayOrEmpty arr))))"

text \<open>\<open>loadCaught\<close>: the \<open>catch\<close> clause turns every exception into the empty set.\<close>

definition loadCaught :: "platform \<Rightarrow> storage \<Rightarrow> jsset" where
  "loadCaught P st = (case loadCaught_try P st of Inl e \<Rightarrow> newSet [] | Inr s \<Rightarrow> s)"

text \<open>\<open>saveCaught\<close>: a failed write is swallowed and leaves the storage as it was.\<close>

definition saveCaught :: "platform \<Rightarrow> jsset \<Rightarrow> storage \<Rightarrow> storage" where
  "saveCaught P s st =
     (case setItem st LS_KEY (JSON_stringify P (JArr (arrayFrom s))) of
        Inl e \<Rightarrow> st
      | Inr st' \<Rightarrow> st')"

text \<open>
  The state that \<open>toggleCaught\<close> works on: the \<open>caught\<close> state of \<open>App\<close> and the storage.
\<close>

record caught_state =
  caught :: jsset
  localStorage :: storage

text \<open>
  The set computed by the updater of \<open>toggleCaught\<close>: a copy of the previous set in which
  the id is deleted when present and added when absent. The previous set is not changed.
\<close>

definition toggleNext :: "jsset \<Rightarrow> nat \<Rightarrow> jsset" where
  "toggleNext prev i =
     (let next = newSet (arrayFrom prev)
      in if setHas next (JNum (int i)) then setDelete next (JNum (int i))
         else setAdd next (JNum (int i)))"

text \<open>
  \<open>toggleCaught(id)\<close>: a falsy id (\<open>0\<close>, or \<open>undefined\<close> when nothing is selected) returns at
  once; otherwise the new set becomes the state and is saved.
\<close>

definition toggleCaught :: "platform \<Rightarrow> nat \<Rightarrow> caught_state \<Rightarrow> caught_state" where
  "toggleCaught P i s =
     (if i = 0 then s
      else let next = toggleNext (caught s) i
           in \<lparr>caught = next, localStorage = saveCaught P next (localStorage s)\<rparr>)"

section \<open>Selecting the description text\<close>

text \<open>
  The code units that \<open>\s\<close> matches in a regular expression and that \<open>trim\<close> strips:
  the white space and line terminator characters of ECMAScript.
\<close>

definition isWhiteSpace :: "nat \<Rightarrow> bool" where
  "isWhiteSpace c =
     (c = 9 \<or> c = 10 \<or> c = 11 \<or> c = 12 \<or> c = 13 \<or> c = 32 \<or> c = 160 \<or> c = 5760
      \<or> (8192 \<le> c \<and> c \<le> 8202) \<or> c = 8232 \<or> c = 8233 \<or> c = 8239 \<or> c = 8287
      \<or> c = 12288 \<or> c = 65279)"

text \<open>\<open>s.replace(/\s+/g, " ")\<close>: every maximal run of white space becomes one space.\<close>

function replaceWsRuns :: "jsstring \<Rightarrow> jsstring" where
  "replaceWsRuns [] = []"
| "replaceWsRuns (c # cs) =
     (if isWhiteSpace c then 32 # replaceWsRuns (dropWhile isWhiteSpace cs)
      else c # replaceWsRuns cs)"
  by pat_completeness auto
termination
  by (relation "measure length") (auto simp: length_dropWhile_le less_Suc_eq_le)

text \<open>\<open>s.trim()\<close>\<close>

definition trim :: "jsstring \<Rightarrow> jsstring" where
  "trim s = rev (dropWhile isWhiteSpace (rev (dropWhile isWhiteSpace s)))"

text \<open>
  An entry of \<open>flavor_text_entries\<close>: \<open>e.language?.name\<close> and \<open>e.version?.name\<close> may be
  missing (\<open>None\<close>), \<open>e.flavor_text\<close> is a string.
\<close>

record flavor_entry =
  language_name :: "jsstring option"
  version_name :: "jsstring option"
  flavor_text :: jsstring

record species =
  flavor_text_entries :: "flavor_entry list option"

definition preferred :: "jsstring list" where
  "preferred = [lit ''scarlet'', lit ''violet'', lit ''sword'', lit ''shield'',
                lit ''legends-arceus'', lit ''brilliant-diamond'', lit ''shining-pearl'']"

text \<open>
  \<open>en\<close>: the entries (\<open>species?.flavor_text_entries || []\<close>) whose language is \<open>"en"\<close>.
\<close>

definition englishEntries :: "species option \<Rightarrow> flavor_entry list" where
  "englishEntries sp =
     (let entries = (case sp of
                       None \<Rightarrow> []
                     | Some s \<Rightarrow> (case flavor_text_entries s of None \<Rightarrow> [] | Some es \<Rightarrow> es))
      in filter (\<lambda>e. language_name e = Some (lit ''en'')) entries)"

text \<open>The loop over \<open>preferred\<close>: the first preferred version that \<open>en.find\<close> hits.\<close>

fun scanPreferred :: "jsstring list \<Rightarrow> flavor_entry list \<Rightarrow> flavor_entry option" where
  "scanPreferred [] en = None"
| "scanPreferred (p # ps) en =
     (case find (\<lambda>e. version_name e = Some p) en of
        Some hit \<Rightarrow> Some hit
      | None \<Rightarrow> scanPreferred ps en)"

definition bestEnglishFlavor :: "species option \<Rightarrow> jsstring" where
  "bestEnglishFlavor sp =
     (let en = englishEntries sp
      in if en = [] then []
         else (case scanPreferred preferred en of
                 Some hit \<Rightarrow> trim (replaceWsRuns (flavor_text hit))
               | None \<Rightarrow> trim (replaceWsRuns (flavor_text (last en)))))"

text \<open>
  A text in which white space occurs only as single spaces between other code units.
\<close>

definition singleSpaced :: "jsstring \<Rightarrow> bool" where
  "singleSpaced t =
     ((\<forall>c\<in>set t. isWhiteSpace c \<longrightarrow> c = 32)
      \<and> successively (\<lambda>a b. \<not> (a = 32 \<and> b = 32)) t
      \<and> (t \<noteq> [] \<longrightarrow> hd t \<noteq> 32 \<and> last t \<noteq> 32))"

section \<open>The list view filter\<close>

text \<open>
  The items that \<open>ListView\<close> receives: \<open>{id, name, sprite}\<close>. The field names carry a
  prefix because \<open>id\<close> is a constant of HOL.
\<close>

record list_item =
  item_id :: nat
  item_name :: jsstring
  item_sprite :: jsstring

text \<open>The filter mode: \<open>"all"\<close>, \<open>"missing"\<close> or \<open>"caught"\<close>.\<close>

datatype mode = ModeAll | ModeMissing | ModeCaught

text \<open>\<open>s.includes(t)\<close>: \<open>t\<close> occurs in \<open>s\<close> at some position.\<close>

fun stringIncludes :: "jsstring \<Rightarrow> jsstring \<Rightarrow> bool" where
  "stringIncludes [] t = (t = [])"
| "stringIncludes (c # cs) t = (take (length t) (c # cs) = t \<or> stringIncludes cs t)"

text \<open>The value of \<open>filtered\<close> in \<open>ListView\<close>, for the search text \<open>q\<close> and the mode.\<close>

definition filtered :: "platform \<Rightarrow> list_item list \<Rightarrow> jsstring \<Rightarrow> mode \<Rightarrow> jsset \<Rightarrow> list_item list" where
  "filtered P items q m caughtSet =
     (let query = toLowerCase P (trim q)
      in filter (\<lambda>p. let isCaught = setHas caughtSet (JNum (int (item_id p)))
                     in if m = ModeAll then True
                        else if m = ModeCaught then isCaught
                        else \<not> isCaught)
           (filter (\<lambda>p. if query = [] then True
                         else stringIncludes (item_name p) query
                              \<or> stringIncludes (decimal (item_id p)) query)
              items))"

text \<open>
  The filter as the specification words it: when the query is not empty an item passes if
  its name contains the query, compared without regard to case, or the decimal text of its
  index contains the query; it then passes the mode if the mode is All, or Missing and the
  index is not in the caught set, or Caught and the index is in the caught set.
\<close>

definition filterList_spec :: "platform \<Rightarrow> list_item list \<Rightarrow> jsstring \<Rightarrow> mode \<Rightarrow> jsset \<Rightarrow> list_item list" where
  "filterList_spec P items query m caughtSet =
     filter (\<lambda>p. (query = [] \<or> stringIncludes (toLowerCase P (item_name p)) (toLowerCase P query)
                              \<or> stringIncludes (decimal (item_id p)) query)
                 \<and> (m = ModeAll
                    \<or> m = ModeMissing \<and> \<not> setHas caughtSet (JNum (int (item_id p)))
                    \<or> m = ModeCaught \<and> setHas caughtSet (JNum (int (item_id p)))))
       items"

section \<open>Arrays and objects\<close>

text \<open>
  \<open>Array.prototype.sort\<close> is stable. With a consistent comparison function its result is
  the stable sorted arrangement of the array, which insertion from the right computes.
\<close>

fun insertSorted :: "('a \<Rightarrow> 'a \<Rightarrow> int) \<Rightarrow> 'a \<Rightarrow> 'a list \<Rightarrow> 'a list" where
  "insertSorted cmp x [] = [x]"
| "insertSorted cmp x (y # ys) =
     (if cmp x y \<le> 0 then x # y # ys else y # insertSorted cmp x ys)"

definition arraySort :: "('a \<Rightarrow> 'a \<Rightarrow> int) \<Rightarrow> 'a list \<Rightarrow> 'a list" where
  "arraySort cmp xs = foldr (insertSorted cmp) xs []"

text \<open>
  A consistent comparison function in the sense of ECMAScript: every value is equal to
  itself, swapping the arguments swaps the sign, and the order is transitive.
\<close>

definition consistentComparator :: "('a \<Rightarrow> 'a \<Rightarrow> int) \<Rightarrow> bool" where
  "consistentComparator cmp =
     ((\<forall>a. cmp a a = 0)
      \<and> (\<forall>a b. cmp a b < 0 \<longleftrightarrow> 0 < cmp b a)
      \<and> (\<forall>a b c. cmp a b \<le> 0 \<and> cmp b c \<le> 0 \<longrightarrow> cmp a c \<le> 0))"

text \<open>
  An object used as a dictionary: its own properties in the order of their creation.
  \<open>Object.keys\<close> lists the keys that are array indices first, in ascending numeric order,
  and then the other keys in the order of their creation.
\<close>

definition isArrayIndex :: "jsstring \<Rightarrow> bool" where
  "isArrayIndex s =
     (s \<noteq> [] \<and> list_all isDigit s \<and> (hd s = 48 \<longrightarrow> length s = 1)
      \<and> digitsValue s < 4294967295)"

definition objectKeys :: "(jsstring \<times> 'a) list \<Rightarrow> jsstring list" where
  "objectKeys ob =
     sort_key digitsValue (filter isArrayIndex (map fst ob))
     @ filter (\<lambda>k. \<not> isArrayIndex k) (map fst ob)"

text \<open>
  The property names that every object literal inherits from \<open>Object.prototype\<close>. Reading
  one of them from \<open>{}\<close> gives a function (or, for \<open>__proto__\<close>, the prototype object),
  which is truthy.
\<close>

definition objectPrototypeKeys :: "jsstring list" where
  "objectPrototypeKeys =
     [lit ''constructor'', lit ''__defineGetter__'', lit ''__defineSetter__'',
      lit ''hasOwnProperty'', lit ''__lookupGetter__'', lit ''__lookupSetter__'',
      lit ''isPrototypeOf'', lit ''propertyIsEnumerable'', lit ''toString'', lit ''valueOf'',
      lit ''__proto__'', lit ''toLocaleString'']"

section \<open>Version labels\<close>

definition isTitleSeparator :: "nat \<Rightarrow> bool" where
  "isTitleSeparator c = (c = 45 \<or> isWhiteSpace c \<or> c = 95)"

text \<open>
  \<open>s.split(re)\<close> for a regular expression \<open>re\<close> that matches the non-empty runs of
  separator code units: the pieces between the runs, with an empty piece before a run at
  the start and after a run at the end.
\<close>

fun splitRuns :: "(nat \<Rightarrow> bool) \<Rightarrow> jsstring \<Rightarrow> jsstring list" where
  "splitRuns sep [] = [[]]"
| "splitRuns sep (c # cs) =
     (case splitRuns sep cs of
        [] \<Rightarrow> [[c]]
      | w # ws \<Rightarrow>
          if sep c then (if cs \<noteq> [] \<and> sep (hd cs) then w # ws else [] # w # ws)
          else (c # w) # ws)"

text \<open>\<open>w.charAt(0).toUpperCase() + w.slice(1)\<close>\<close>

definition capitalize :: "platform \<Rightarrow> jsstring \<Rightarrow> jsstring" where
  "capitalize P w = toUpperCase P (take 1 w) @ drop 1 w"

definition titleCase :: "platform \<Rightarrow> jsstring \<Rightarrow> jsstring" where
  "titleCase P s =
     join (lit '' '')
       (map (capitalize P) (filter (\<lambda>w. w \<noteq> []) (splitRuns isTitleSeparator s)))"

definition VERSION_LABELS :: "(jsstring \<times> jsstring) list" where
  "VERSION_LABELS =
     [(lit ''red'', lit ''Red''),
      (lit ''blue'', lit ''Blue''),
      (lit ''yellow'', lit ''Yellow''),
      (lit ''gold'', lit ''Gold''),
      (lit ''silver'', lit ''Silver''),
      (lit ''crystal'', lit ''Crystal''),
      (lit ''ruby'', lit ''Ruby''),
      (lit ''sapphire'', lit ''Sapphire''),
      (lit ''emerald'', lit ''Emerald''),
      (lit ''firered'', lit ''FireRed''),
      (lit ''leafgreen'', lit ''LeafGreen''),
      (lit ''diamond'', lit ''Diamond''),
      (lit ''pearl'', lit ''Pearl''),
      (lit ''platinum'', lit ''Platinum''),
      (lit ''heartgold'', lit ''HeartGold''),
      (lit ''soulsilver'', lit ''SoulSilver''),
      (lit ''black'', lit ''Black''),
      (lit ''white'', lit ''White''),
      (lit ''black-2'', lit ''Black 2''),
      (lit ''white-2'', lit ''White 2''),
      (lit ''x'', lit ''X''),
      (lit ''y'', lit ''Y''),
      (lit ''omega-ruby'', lit ''Omega Ruby''),
      (lit ''alpha-sapphire'', lit ''Alpha Sapphire''),
      (lit ''sun'', lit ''Sun''),
      (lit ''moon'', lit ''Moon''),
      (lit ''ultra-sun'', lit ''Ultra Sun''),
      (lit ''ultra-moon'', lit ''Ultra Moon''),
      (lit ''lets-go-pikachu'', lit ''Let'' @ [8217] @ lit ''s Go Pikachu''),
      (lit ''lets-go-eevee'', lit ''Let'' @ [8217] @ lit ''s Go Eevee''),
      (lit ''sword'', lit ''Sword''),
      (lit ''shield'', lit ''Shield''),
      (lit ''brilliant-diamond'', lit ''Brilliant Diamond''),
      (lit ''shining-pearl'', lit ''Shining Pearl''),
      (lit ''legends-arceus'', lit ''Legends: Arceus''),
      (lit ''scarlet'', lit ''Scarlet''),
      (lit ''violet'', lit ''Violet'')]"

text \<open>
  \<open>versionLabel(v) = VERSION_LABELS[v] || titleCase(v)\<close>. Every label of the table is a
  non-empty string. The properties that the table inherits from \<open>Object.prototype\<close> are
  left out: \<open>normalizeEncounterData\<close> throws before it asks for the label of such a name.
\<close>

definition versionLabel :: "platform \<Rightarrow> jsstring \<Rightarrow> jsstring" where
  "versionLabel P v = (case map_of VERSION_LABELS v of Some l \<Rightarrow> l | None \<Rightarrow> titleCase P v)"

section \<open>The encounter normalizer\<close>

text \<open>
  A row of the encounters response: \<open>row.location_area?.name\<close>, and for each element of
  \<open>row.version_details || []\<close> its \<open>vd.version?.name\<close>. \<open>None\<close> is a missing name.
\<close>

record encounter_row =
  location_area_name :: "jsstring option"
  version_details :: "jsstring option list"

text \<open>
  The object \<open>byVersion\<close> inside the function: version names in the order of their
  creation, each with its \<open>Set\<close> of location names in insertion order.
\<close>

type_synonym groups = "(jsstring \<times> jsstring list) list"

text \<open>\<open>if (!byVersion[v]) byVersion[v] = new Set(); byVersion[v].add(loc);\<close> for an own key.\<close>

fun addLocation :: "groups \<Rightarrow> jsstring \<Rightarrow> jsstring \<Rightarrow> groups" where
  "addLocation [] v loc = [(v, [loc])]"
| "addLocation ((k, s) # g) v loc =
     (if k = v then (k, if loc \<in> set s then s else s @ [loc]) # g
      else (k, s) # addLocation g v loc)"

text \<open>
  The inner loop over the version details of one row. A missing or empty name is skipped
  (\<open>continue\<close>). For a name that \<open>{}\<close> inherits, \<open>byVersion[v]\<close> is truthy and is not a
  \<open>Set\<close>, so the call of \<open>add\<close> throws a TypeError.
\<close>

fun detailsLoop :: "jsstring option \<Rightarrow> jsstring option list \<Rightarrow> groups \<Rightarrow> error + groups" where
  "detailsLoop loc [] g = Inr g"
| "detailsLoop loc (vd # vds) g =
     (case (vd, loc) of
        (Some v, Some l) \<Rightarrow>
          if v = [] \<or> l = [] then detailsLoop loc vds g
          else if v \<in> set objectPrototypeKeys then Inl TypeError
          else detailsLoop loc vds (addLocation g v l)
      | _ \<Rightarrow> detailsLoop loc vds g)"

fun rowsLoop :: "encounter_row list \<Rightarrow> groups \<Rightarrow> error + groups" where
  "rowsLoop [] g = Inr g"
| "rowsLoop (row # rows) g =
     (case detailsLoop (location_area_name row) (version_details row) g of
        Inl e \<Rightarrow> Inl e
      | Inr g' \<Rightarrow> rowsLoop rows g')"

record EncounterMap =
  versions :: "jsstring list"
  byVersion :: "jsstring \<rightharpoonup> jsstring list"

text \<open>\<open>byVersion[v]\<close> for a key \<open>v\<close> of the object.\<close>

definition locationsOf :: "groups \<Rightarrow> jsstring \<Rightarrow> jsstring list" where
  "locationsOf g v = (case map_of g v of Some s \<Rightarrow> s | None \<Rightarrow> [])"

text \<open>\<open>for (const v of versions) normalized[v] = Array.from(byVersion[v]).sort();\<close>\<close>

fun buildNormalized ::
  "groups \<Rightarrow> jsstring list \<Rightarrow> (jsstring \<rightharpoonup> jsstring list) \<Rightarrow> (jsstring \<rightharpoonup> jsstring list)" where
  "buildNormalized g [] normalized = normalized"
| "buildNormalized g (v # vs) normalized =
     buildNormalized g vs (normalized(v \<mapsto> arraySort codeUnitCompare (locationsOf g v)))"

definition normalizeEncounterData :: "platform \<Rightarrow> encounter_row list \<Rightarrow> error + EncounterMap" where
  "normalizeEncounterData P encArr =
     (case rowsLoop encArr [] of
        Inl e \<Rightarrow> Inl e
      | Inr g \<Rightarrow>
          let vs = arraySort (\<lambda>a b. localeCompare P (versionLabel P a) (versionLabel P b))
                     (objectKeys g)
          in Inr \<lparr>versions = vs, byVersion = buildNormalized g vs Map.empty\<rparr>)"

text \<open>
  The (version, location) pairs that a row contributes, and those of a whole response: the
  pairs of a location name and a version name of the same row that are both present and
  not empty.
\<close>

definition rowPairs :: "encounter_row \<Rightarrow> (jsstring \<times> jsstring) set" where
  "rowPairs row =
     {(v, l). v \<noteq> [] \<and> l \<noteq> [] \<and> location_area_name row = Some l
              \<and> Some v \<in> set (version_details row)}"

definition validPairs :: "encounter_row list \<Rightarrow> (jsstring \<times> jsstring) set" where
  "validPairs rows = (\<Union>row\<in>set rows. rowPairs row)"

text \<open>The pairs that a \<open>byVersion\<close> object holds, and its well-formedness.\<close>

definition pairsOf :: "groups \<Rightarrow> (jsstring \<times> jsstring) set" where
  "pairsOf g = {(v, l). \<exists>s. (v, s) \<in> set g \<and> l \<in> set s}"

definition wellFormed :: "groups \<Rightarrow> bool" where
  "wellFormed g = (distinct (map fst g) \<and> (\<forall>(k, s)\<in>set g. distinct s \<and> s \<noteq> []))"

section \<open>The application: catalog store, selection and the detail panel\<close>

text \<open>
  A record of \<open>items\<close> in \<open>App\<close>: \<open>{id, name, sprite, spriteFallback}\<close> for a stub, and
  after enrichment also \<open>types\<close>, \<open>height\<close> and \<open>weight\<close> (\<open>None\<close> while the property is
  missing). The field names carry a prefix because \<open>id\<close> is a constant of HOL.
\<close>

record item =
  pk_id :: nat
  pk_name :: jsstring
  pk_sprite :: jsstring
  pk_spriteFallback :: jsstring
  pk_types :: "jsstring list option"
  pk_height :: "nat option"
  pk_weight :: "nat option"

definition officialArtworkUrl :: "nat \<Rightarrow> jsstring" where
  "officialArtworkUrl i =
     lit ''https://raw.githubusercontent.com/PokeAPI/sprites/master/sprites/pokemon/other/official-artwork/''
     @ decimal i @ lit ''.png''"

definition spriteUrl :: "nat \<Rightarrow> jsstring" where
  "spriteUrl i =
     lit ''https://raw.githubusercontent.com/PokeAPI/sprites/master/sprites/pokemon/''
     @ decimal i @ lit ''.png''"

text \<open>\<open>base = list.results.map((r, i) => ...)\<close> for the names of the list response.\<close>

definition stubs :: "jsstring list \<Rightarrow> item list" where
  "stubs names =
     map (\<lambda>(i, n). \<lparr>pk_id = i + 1, pk_name = n, pk_sprite = officialArtworkUrl (i + 1),
                     pk_spriteFallback = spriteUrl (i + 1), pk_types = None,
                     pk_height = None, pk_weight = None\<rparr>)
       (enumerate 0 names)"

text \<open>What \<open>fetchPokemon\<close> resolves to, as far as the application reads it.\<close>

record pokemon_detail =
  full_id :: nat
  full_name :: jsstring
  full_types :: "jsstring list"
  full_height :: nat
  full_weight :: nat
  full_official_artwork :: "jsstring option"
  full_front_default :: "jsstring option"

text \<open>\<open>a || b\<close> for an optional string \<open>a\<close>.\<close>

definition truthyOr :: "jsstring option \<Rightarrow> jsstring \<Rightarrow> jsstring" where
  "truthyOr a b = (case a of Some x \<Rightarrow> if x \<noteq> [] then x else b | None \<Rightarrow> b)"

text \<open>
  The record that the updater of the detail effect stores: \<open>{...copy[selectedIndex],
  ...full}\<close> with the sprite fallback chain; \<open>curSprite\<close> is \<open>cur.sprite\<close>.
\<close>

definition enrich :: "item \<Rightarrow> pokemon_detail \<Rightarrow> jsstring \<Rightarrow> item" where
  "enrich old full curSprite =
     (let p = old\<lparr>pk_id := full_id full, pk_name := full_name full,
                   pk_types := Some (full_types full), pk_height := Some (full_height full),
                   pk_weight := Some (full_weight full)\<rparr>
      in p\<lparr>pk_sprite := truthyOr (Some (pk_sprite p))
                            (truthyOr (full_official_artwork full)
                               (truthyOr (full_front_default full) curSprite))\<rparr>)"

text \<open>
  One run of the detail effect that started a fetch: the \<open>selectedIndex\<close> and the \<open>cur\<close> it
  captured, its \<open>alive\<close> flag, and whether its promise has settled.
\<close>

record detail_task =
  dt_index :: nat
  dt_cur :: item
  dt_alive :: bool
  dt_settled :: bool

text \<open>
  One mounted instance of \<open>DexSidePanel\<close>: the id of its \<open>pokemon\<close>, the \<open>alive\<close> flag of its
  effect, how far the asynchronous function of the effect has come, and its state
  variables. \<open>encFor\<close> is not in the source: it records the pokemon id whose encounters
  request produced the value of \<open>enc\<close>.
\<close>

datatype phase = AwaitSpecies | AwaitEncounters | Finished

record panel_instance =
  pokemon_id :: nat
  alive :: bool
  phase :: phase
  speciesData :: "species option"
  enc :: "EncounterMap option"
  encFor :: "nat option"
  encLoading :: bool
  selectedVersion :: "jsstring option"
  errorText :: "jsstring option"


datatype viewMode = DexView | ListView

text \<open>
  The state of \<open>App\<close> with everything that is in flight. \<open>detailEffect\<close> is the task whose
  cleanup the next run of the detail effect calls; \<open>mounted\<close> is the panel instance on
  screen.
\<close>

record app =
  items :: "item list"
  loading :: bool
  selectedIndex :: nat
  viewMode :: viewMode
  listPending :: bool
  detailTasks :: "detail_task list"
  detailEffect :: "nat option"
  panels :: "panel_instance list"
  mounted :: "nat option"

definition initialApp :: app where
  "initialApp =
     \<lparr>items = [], loading = True, selectedIndex = 0, viewMode = DexView, listPending = True,
      detailTasks = [], detailEffect = None, panels = [], mounted = None\<rparr>"

text \<open>The cleanup function of the detail effect: \<open>alive = false\<close>.\<close>

definition cleanupDetail :: "app \<Rightarrow> app" where
  "cleanupDetail s =
     (case detailEffect s of
        None \<Rightarrow> s
      | Some t \<Rightarrow> s\<lparr>detailTasks := (detailTasks s)[t := (detailTasks s ! t)\<lparr>dt_alive := False\<rparr>]\<rparr>)"

text \<open>
  The detail effect runs again when \<open>items\<close> or \<open>selectedIndex\<close> has changed: first the
  cleanup of the previous run, then the body, which returns early (and registers no
  cleanup) when there are no items, no current record, or the record has \<open>types\<close>.
\<close>

definition runDetailEffect :: "app \<Rightarrow> app" where
  "runDetailEffect s0 =
     (let s = cleanupDetail s0
      in if items s = [] then s\<lparr>detailEffect := None\<rparr>
         else if length (items s) \<le> selectedIndex s then s\<lparr>detailEffect := None\<rparr>
         else let cur = items s ! selectedIndex s
              in if pk_types cur \<noteq> None then s\<lparr>detailEffect := None\<rparr>
                 else s\<lparr>detailTasks := detailTasks s
                           @ [\<lparr>dt_index = selectedIndex s, dt_cur = cur, dt_alive = True,
                               dt_settled = False\<rparr>],
                         detailEffect := Some (length (detailTasks s))\<rparr>)"

text \<open>
  \<open>App\<close> renders \<open>DexSidePanel\<close> under the key \<open>selected.id\<close> when \<open>selected && view ===
  "dex"\<close>, inside \<open><AnimatePresence mode="wait">\<close> with an \<open>exit\<close> animation of 0.25 s.
  \<open>panelKey\<close> is the key that \<open>App\<close> renders, \<open>mountedKey\<close> the key of the instance on
  screen. An instance whose key is no longer rendered is not unmounted at once: it stays on
  screen with the props it had, its effect not cleaned up, while its exit animation runs
  (\<open>exiting\<close>); the instance for the new key is mounted when that animation has ended.
  When the key of the instance on screen is rendered again before that, the same instance
  stays. Unmounting runs the cleanup of the effect; a new instance starts with the initial
  state and its effect starts the species request.
\<close>

definition panelKey :: "app \<Rightarrow> nat option" where
  "panelKey s =
     (if viewMode s = DexView \<and> selectedIndex s < length (items s)
      then Some (pk_id (items s ! selectedIndex s)) else None)"

definition mountedKey :: "app \<Rightarrow> nat option" where
  "mountedKey s = (case mounted s of None \<Rightarrow> None | Some i \<Rightarrow> Some (pokemon_id (panels s ! i)))"

definition unmountPanel :: "app \<Rightarrow> app" where
  "unmountPanel s =
     (case mounted s of
        None \<Rightarrow> s
      | Some i \<Rightarrow> s\<lparr>panels := (panels s)[i := (panels s ! i)\<lparr>alive := False\<rparr>], mounted := None\<rparr>)"

definition freshPanel :: "nat \<Rightarrow> panel_instance" where
  "freshPanel k =
     \<lparr>pokemon_id = k, alive = True, phase = AwaitSpecies, speciesData = None, enc = None,
      encFor = None, encLoading = False, selectedVersion = None, errorText = None\<rparr>"

definition mountPanel :: "nat \<Rightarrow> app \<Rightarrow> app" where
  "mountPanel k s = s\<lparr>panels := panels s @ [freshPanel k], mounted := Some (length (panels s))\<rparr>"

definition exiting :: "app \<Rightarrow> bool" where
  "exiting s = (mounted s \<noteq> None \<and> mountedKey s \<noteq> panelKey s)"

text \<open>
  What a render of \<open>App\<close> does to the panel: with nothing on screen, the instance for the
  rendered key is mounted; an instance on screen is left where it is, present or exiting.
\<close>

definition syncPanel :: "app \<Rightarrow> app" where
  "syncPanel s =
     (case mounted s of
        Some i \<Rightarrow> s
      | None \<Rightarrow> (case panelKey s of None \<Rightarrow> s | Some k \<Rightarrow> mountPanel k s))"

text \<open>
  The exit animation has ended: the exiting instance is unmounted and the instance for the
  key rendered by then, if there is one, is mounted.
\<close>

definition exitComplete :: "app \<Rightarrow> app" where
  "exitComplete s = (if exiting s then syncPanel (unmountPanel s) else s)"

definition clamp :: "int \<Rightarrow> int \<Rightarrow> int \<Rightarrow> int" where
  "clamp n a b = max a (min b n)"

fun findIndex :: "('a \<Rightarrow> bool) \<Rightarrow> 'a list \<Rightarrow> nat option" where
  "findIndex f [] = None"
| "findIndex f (x # xs) = (if f x then Some 0 else map_option Suc (findIndex f xs))"

definition emptyEncounterMap :: EncounterMap where
  "emptyEncounterMap = \<lparr>versions = [], byVersion = Map.empty\<rparr>"

text \<open>
  What can happen: the list request settles, the user selects, steps, switches the view or
  jumps, a detail, species or encounters request of a task settles (\<open>None\<close> is a
  rejected promise), and the exit animation of the panel ends.
\<close>

datatype event =
    ListLoaded "jsstring list option"
  | SetSelectedIndex nat
  | Prev
  | Next
  | SetView viewMode
  | JumpToId nat
  | DetailResolved nat "pokemon_detail option"
  | SpeciesResolved nat "species option"
  | EncountersResolved nat "encounter_row list option"
  | ExitComplete

definition selectIndex :: "nat \<Rightarrow> app \<Rightarrow> app" where
  "selectIndex j s =
     (if j = selectedIndex s then s else syncPanel (runDetailEffect (s\<lparr>selectedIndex := j\<rparr>)))"

text \<open>The continuation of the detail effect after \<open>await fetchPokemon(cur.id)\<close>.\<close>

definition detailResolved :: "nat \<Rightarrow> pokemon_detail option \<Rightarrow> app \<Rightarrow> app" where
  "detailResolved t r s =
     (if length (detailTasks s) \<le> t \<or> dt_settled (detailTasks s ! t) then s
      else let task = detailTasks s ! t;
               s1 = s\<lparr>detailTasks := (detailTasks s)[t := task\<lparr>dt_settled := True\<rparr>]\<rparr>
           in (case r of
                 None \<Rightarrow> s1
               | Some full \<Rightarrow>
                   if \<not> dt_alive task then s1
                   else syncPanel (runDetailEffect
                          (s1\<lparr>items := (items s1)[dt_index task :=
                                  enrich (items s1 ! dt_index task) full (pk_sprite (dt_cur task))]\<rparr>))))"

text \<open>The continuation of the panel effect after \<open>await fetchSpecies(pokemon.id)\<close>.\<close>

definition speciesResolved :: "nat \<Rightarrow> species option \<Rightarrow> app \<Rightarrow> app" where
  "speciesResolved t r s =
     (if length (panels s) \<le> t \<or> phase (panels s ! t) \<noteq> AwaitSpecies then s
      else let p = panels s ! t
           in if \<not> alive p then s\<lparr>panels := (panels s)[t := p\<lparr>phase := Finished\<rparr>]\<rparr>
              else let p1 = (case r of
                               Some sp \<Rightarrow> p\<lparr>speciesData := Some sp\<rparr>
                             | None \<Rightarrow> p\<lparr>errorText := Some (lit ''Couldn'' @ [8217]
                                                   @ lit ''t load Dex flavor text.'')\<rparr>)
                   in s\<lparr>panels := (panels s)[t := p1\<lparr>encLoading := True, phase := AwaitEncounters\<rparr>]\<rparr>)"

text \<open>
  The continuation of the panel effect after \<open>await fetchEncounters(pokemon.id)\<close>: nothing
  is set when \<open>alive\<close> is false; otherwise the normalized map and its first version are
  set, or the empty map when the request failed or the normalizer threw.
\<close>

definition encountersResolved :: "platform \<Rightarrow> nat \<Rightarrow> encounter_row list option \<Rightarrow> app \<Rightarrow> app" where
  "encountersResolved P t r s =
     (if length (panels s) \<le> t \<or> phase (panels s ! t) \<noteq> AwaitEncounters then s
      else let p = panels s ! t
           in if \<not> alive p then s\<lparr>panels := (panels s)[t := p\<lparr>phase := Finished\<rparr>]\<rparr>
              else let p1 = (case r of
                               None \<Rightarrow> p\<lparr>enc := Some emptyEncounterMap\<rparr>
                             | Some raw \<Rightarrow>
                                 (case normalizeEncounterData P raw of
                                    Inl e \<Rightarrow> p\<lparr>enc := Some emptyEncounterMap\<rparr>
                                  | Inr norm \<Rightarrow>
                                      p\<lparr>enc := Some norm,
                                        selectedVersion :=
                                          (case versions norm of
                                             [] \<Rightarrow> None
                                           | v # vs \<Rightarrow> if v = [] then None else Some v)\<rparr>))
                   in s\<lparr>panels := (panels s)[t := p1\<lparr>encFor := Some (pokemon_id p),
                                                       encLoading := False,
                                                       phase := Finished\<rparr>]\<rparr>)"

fun step :: "platform \<Rightarrow> event \<Rightarrow> app \<Rightarrow> app" where
  "step P (ListLoaded r) s =
     (if \<not> listPending s then s
      else (case r of
              Some names \<Rightarrow>
                syncPanel (runDetailEffect
                  (s\<lparr>items := stubs names, selectedIndex := 0, loading := False,
                     listPending := False\<rparr>))
            | None \<Rightarrow>
                syncPanel (runDetailEffect
                  (s\<lparr>items := [], loading := False, listPending := False\<rparr>))))"
| "step P (SetSelectedIndex j) s = selectIndex j s"
| "step P Prev s =
     selectIndex (nat (clamp (int (selectedIndex s) - 1) 0 (int (length (items s)) - 1))) s"
| "step P Next s =
     selectIndex (nat (clamp (int (selectedIndex s) + 1) 0 (int (length (items s)) - 1))) s"
| "step P (SetView v) s = syncPanel (s\<lparr>viewMode := v\<rparr>)"
| "step P (JumpToId i) s =
     (case findIndex (\<lambda>p. pk_id p = i) (items s) of
        None \<Rightarrow> s
      | Some idx \<Rightarrow>
          let s1 = s\<lparr>viewMode := DexView, selectedIndex := idx\<rparr>
          in syncPanel (if idx = selectedIndex s then s1 else runDetailEffect s1))"
| "step P (DetailResolved t r) s = detailResolved t r s"
| "step P (SpeciesResolved t r) s = speciesResolved t r s"
| "step P (EncountersResolved t r) s = encountersResolved P t r s"
| "step P ExitComplete s = exitComplete s"

fun run :: "platform \<Rightarrow> event list \<Rightarrow> app \<Rightarrow> app" where
  "run P [] s = s"
| "run P (e # es) s = run P es (step P e s)"

text \<open>
  What holds in every state that the application reaches. For the detail effect: only the
  task of the latest run can be alive, every task points at a position of \<open>items\<close>, and
  nothing is in flight before the list has arrived. For the panels: the instance on
  screen is alive and no other is, the map of an instance comes from a request for its own
  pokemon, and an instance is on screen whenever a key is rendered.
\<close>

definition detailInv :: "app \<Rightarrow> bool" where
  "detailInv s =
     ((\<forall>t < length (detailTasks s). dt_alive (detailTasks s ! t) \<longrightarrow> detailEffect s = Some t)
      \<and> (\<forall>t < length (detailTasks s). dt_index (detailTasks s ! t) < length (items s))
      \<and> (listPending s \<longrightarrow> items s = [] \<and> detailTasks s = []))"

definition panelsOk :: "app \<Rightarrow> bool" where
  "panelsOk s =
     ((\<forall>i < length (panels s). alive (panels s ! i) \<longrightarrow> mounted s = Some i)
      \<and> (\<forall>i < length (panels s).
            encFor (panels s ! i) = None \<or> encFor (panels s ! i) = Some (pokemon_id (panels s ! i)))
      \<and> (\<forall>i < length (panels s). enc (panels s ! i) = None \<longleftrightarrow> encFor (panels s ! i) = None)
      \<and> (\<forall>i. mounted s = Some i \<longrightarrow> i < length (panels s) \<and> alive (panels s ! i)))"

definition panelInv :: "app \<Rightarrow> bool" where
  "panelInv s = (panelsOk s \<and> (mounted s = None \<longrightarrow> panelKey s = None))"

section \<open>Platform laws\<close>

definition numArray :: "nat list \<Rightarrow> json" where
  "numArray ns = JArr (map (\<lambda>n. JNum (int n)) ns)"

text \<open>
  What the round trip needs from the platform: an array of positive integers is written
  as a non-empty text, and that text parses back to the same array.
\<close>

definition jsonRoundTrips :: "platform \<Rightarrow> bool" where
  "jsonRoundTrips P =
     (\<forall>ns. (\<forall>n\<in>set ns. 0 < n) \<longrightarrow>
        JSON_stringify P (numArray ns) \<noteq> []
        \<and> JSON_parse P (JSON_stringify P (numArray ns)) = Inr (numArray ns))"

text \<open>A detail task that exists and is no longer alive.\<close>

definition deadTask :: "nat \<Rightarrow> app \<Rightarrow> bool" where
  "deadTask t s = (t < length (detailTasks s) \<and> \<not> dt_alive (detailTasks s ! t))"

section \<open>Example inputs\<close>

text \<open>Concrete inputs on which the model is run below.\<close>

definition exampleStorage :: storage where
  "exampleStorage = \<lparr>access = Available, entries = Map.empty\<rparr>"

definition exampleCaught :: caught_state where
  "exampleCaught = \<lparr>caught = [JNum 1, JNum 2], localStorage = exampleStorage\<rparr>"

definition storedState :: "jsstring \<Rightarrow> storage" where
  "storedState raw = \<lparr>access = Available, entries = [LS_KEY \<mapsto> raw]\<rparr>"

definition entryOf :: "string \<Rightarrow> string \<Rightarrow> jsstring \<Rightarrow> flavor_entry" where
  "entryOf l v t = \<lparr>language_name = Some (lit l), version_name = Some (lit v), flavor_text = t\<rparr>"

definition exampleSpecies :: species where
  "exampleSpecies = \<lparr>flavor_text_entries = Some
     [entryOf ''en'' ''red'' (lit ''A strange seed''),
      entryOf ''fr'' ''scarlet'' (lit ''Une graine''),
      entryOf ''en'' ''sword'' (lit ''old text''),
      entryOf ''en'' ''scarlet''
        ([32, 10] @ lit ''While it is'' @ [10, 12] @ lit ''young,  it uses'' @ [160, 9])]\<rparr>"

definition exampleOldSpecies :: species where
  "exampleOldSpecies = \<lparr>flavor_text_entries = Some
     [entryOf ''en'' ''red'' (lit ''A strange seed''),
      entryOf ''en'' ''blue'' (lit ''It  can go'' @ [10] @ lit ''for days '')]\<rparr>"

definition pokemonItem :: "nat \<Rightarrow> string \<Rightarrow> list_item" where
  "pokemonItem i n = \<lparr>item_id = i, item_name = lit n, item_sprite = []\<rparr>"

definition rowOf :: "string \<Rightarrow> string list \<Rightarrow> encounter_row" where
  "rowOf l vs =
     \<lparr>location_area_name = Some (lit l), version_details = map (\<lambda>v. Some (lit v)) vs\<rparr>"

definition exampleRows :: "encounter_row list" where
  "exampleRows =
     [rowOf ''route-2'' [''red'', ''hearta''],
      \<lparr>location_area_name = None, version_details = [Some (lit ''gold'')]\<rparr>,
      rowOf ''route-1'' [''red'', ''heartgold'', ''red''],
      \<lparr>location_area_name = Some (lit ''cave''), version_details = [None, Some []]\<rparr>,
      rowOf ''route-2'' [''red'']]"

definition exampleNames :: "jsstring list" where
  "exampleNames = [lit ''bulbasaur'', lit ''ivysaur'', lit ''venusaur'']"

definition exampleDetail :: pokemon_detail where
  "exampleDetail =
     \<lparr>full_id = 2, full_name = lit ''ivysaur'', full_types = [lit ''grass''],
      full_height = 10, full_weight = 130, full_official_artwork = None,
      full_front_default = None\<rparr>"

definition exampleSpecies2 :: species where
  "exampleSpecies2 = \<lparr>flavor_text_entries = Some [entryOf ''en'' ''red'' (lit ''A bud grows'')]\<rparr>"

definition scenario :: "event list" where
  "scenario =
     [ListLoaded (Some exampleNames), SetSelectedIndex 1, ExitComplete,
      SpeciesResolved 1 (Some exampleSpecies2), DetailResolved 1 (Some exampleDetail),
      SetSelectedIndex 0]"

section \<open>The reference platform's JSON codec round-trips arrays of integers\<close>

lemma decimal_digits: "list_all isDigit (decimal n)"
proof (induction n rule: decimal.induct)
  case (1 n)
  show ?case
  proof (cases "n < 10")
    case True
    then show ?thesis by (subst decimal.simps) (simp add: isDigit_def)
  next
    case False
    with 1 have "list_all isDigit (decimal (n div 10))" by simp
    moreover have "isDigit (48 + n mod 10)" by (simp add: isDigit_def)
    ultimately show ?thesis using False by (subst decimal.simps) simp
  qed
qed

lemma decimal_nonempty: "decimal n \<noteq> []"
  by (subst decimal.simps) simp

lemma digitsValue_snoc: "digitsValue (s @ [c]) = 10 * digitsValue s + (c - 48)"
  by (simp add: digitsValue_def)

lemma digitsValue_decimal: "digitsValue (decimal n) = n"
proof (induction n rule: decimal.induct)
  case (1 n)
  show ?case
  proof (cases "n < 10")
    case True
    then show ?thesis by (subst decimal.simps) (simp add: digitsValue_def)
  next
    case False
    with 1 have "digitsValue (decimal (n div 10)) = n div 10" by simp
    with False show ?thesis
      by (subst decimal.simps) (simp add: digitsValue_snoc)
  qed
qed

lemma hd_decimal: "hd (decimal n) = 48 \<Longrightarrow> n = 0"
proof (induction n rule: decimal.induct)
  case (1 n)
  show ?case
  proof (cases "n < 10")
    case True
    with 1(2) show ?thesis by (subst (asm) decimal.simps) simp
  next
    case False
    with 1(2) have "hd (decimal (n div 10)) = 48"
      by (subst (asm) decimal.simps) (simp add: decimal_nonempty)
    with 1(1) False have "n div 10 = 0" by simp
    with False show ?thesis by simp
  qed
qed

lemma length_decimal_0: "length (decimal 0) = 1"
  by (subst decimal.simps) simp

lemma parseNatLit_decimal: "parseNatLit (decimal n) = Some n"
  using hd_decimal[of n]
  by (auto simp: parseNatLit_def decimal_digits decimal_nonempty digitsValue_decimal
      length_decimal_0)

lemma decimal_no_minus: "hd (decimal n) \<noteq> 45"
  using decimal_digits[of n] decimal_nonempty[of n]
  by (cases "decimal n") (auto simp: isDigit_def)

lemma parseIntLit_decimal: "parseIntLit (decimal n) = Some (int n)"
proof (cases "decimal n")
  case Nil
  then show ?thesis by (simp add: decimal_nonempty)
next
  case (Cons c cs)
  with decimal_no_minus[of n] have "c \<noteq> 45" by simp
  moreover have "parseNatLit (c # cs) = Some n"
    using parseNatLit_decimal[of n] Cons by simp
  ultimately show ?thesis using Cons by (simp add: parseIntLit_def)
qed

lemma splitAt_nonempty: "splitAt sep s \<noteq> []"
  by (induction s) (auto split: list.splits)

lemma splitAt_no_sep: "sep \<notin> set s \<Longrightarrow> splitAt sep s = [s]"
  by (induction s) (auto split: list.splits)

lemma splitAt_append:
  "sep \<notin> set x \<Longrightarrow> splitAt sep (x @ sep # rest) = x # splitAt sep rest"
  by (induction x) (auto split: list.splits simp: splitAt_nonempty)

lemma splitAt_join:
  "xs \<noteq> [] \<Longrightarrow> \<forall>x\<in>set xs. sep \<notin> set x \<Longrightarrow> splitAt sep (join [sep] xs) = xs"
proof (induction "[sep]" xs rule: join.induct)
  case 1
  then show ?case by simp
next
  case (2 x)
  then show ?case by (simp add: splitAt_no_sep)
next
  case (3 x y ys)
  then show ?case by (simp add: splitAt_append)
qed

lemma sequenceOpt_map_Some:
  "\<forall>x\<in>set xs. f x = Some (g x) \<Longrightarrow> sequenceOpt (map f xs) = Some (map g xs)"
  by (induction xs) auto

lemma join_nonempty: "xs \<noteq> [] \<Longrightarrow> \<forall>x\<in>set xs. x \<noteq> [] \<Longrightarrow> join sep xs \<noteq> []"
  by (induction sep xs rule: join.induct) auto

lemma refStringify_numArray:
  "refStringify (numArray ns) = 91 # join [44] (map decimal ns) @ [93]"
  by (simp add: numArray_def lit_def comp_def)

lemma refParse_refStringify_numArray:
  "refParse (refStringify (numArray ns)) = Inr (numArray ns)"
proof (cases "ns = []")
  case True
  then show ?thesis
    by (simp add: numArray_def refParse_def lit_def parseIntLit_def parseNatLit_def isDigit_def)
next
  case False
  let ?pieces = "map decimal ns"
  let ?s = "91 # join [44] ?pieces @ [93]"
  have "44 \<notin> set (decimal n)" for n
    using decimal_digits[of n] by (force simp: list_all_iff isDigit_def)
  then have nocomma: "\<forall>x\<in>set ?pieces. 44 \<notin> set x" by auto
  have ne: "join [44] ?pieces \<noteq> []"
    using False by (intro join_nonempty) (auto simp: decimal_nonempty)
  have split: "splitAt 44 (join [44] ?pieces) = ?pieces"
    using False nocomma by (intro splitAt_join) auto
  have seq: "sequenceOpt (map parseIntLit ?pieces) = Some (map int ns)"
    using sequenceOpt_map_Some[of ns "parseIntLit \<circ> decimal" int]
    by (simp add: parseIntLit_decimal comp_def)
  have notlit: "?s \<noteq> lit ''null''" "?s \<noteq> lit ''true''" "?s \<noteq> lit ''false''"
    by (simp_all add: lit_def)
  have notint: "parseIntLit ?s = None"
    by (simp add: parseIntLit_def parseNatLit_def isDigit_def)
  show ?thesis
    unfolding refStringify_numArray refParse_def
    using notlit notint ne split seq
    by (simp add: comp_def numArray_def)
qed

lemma refStringify_numArray_nonempty: "refStringify (numArray ns) \<noteq> []"
  by (simp add: refStringify_numArray)

lemma refPlatform_jsonRoundTrips: "jsonRoundTrips refPlatform"
  unfolding jsonRoundTrips_def refPlatform_def
  by (simp add: refParse_refStringify_numArray refStringify_numArray_nonempty)

section \<open>Properties of the persisted caught set\<close>

lemma newSet_Nil: "newSet [] = []"
  by (simp add: newSet_def)

lemma set_foldl_setAdd: "set (foldl setAdd acc xs) = set acc \<union> set xs"
  by (induction xs arbitrary: acc) (auto simp: setAdd_def setHas_def)

lemma set_newSet: "set (newSet xs) = set xs"
  by (simp add: newSet_def set_foldl_setAdd)

lemma foldl_setAdd_distinct:
  "distinct xs \<Longrightarrow> set acc \<inter> set xs = {} \<Longrightarrow> foldl setAdd acc xs = acc @ xs"
  by (induction xs arbitrary: acc) (auto simp: setAdd_def setHas_def)

lemma newSet_distinct: "distinct xs \<Longrightarrow> newSet xs = xs"
  by (simp add: newSet_def foldl_setAdd_distinct)

lemma set_toggleNext:
  "set (toggleNext prev i) =
     (if JNum (int i) \<in> set prev then set prev - {JNum (int i)} else insert (JNum (int i)) (set prev))"
  by (auto simp: toggleNext_def Let_def setHas_def setAdd_def setDelete_def arrayFrom_def
      set_newSet)

text \<open>
  C3: for a species index \<open>i\<close> (a positive integer), the set that \<open>toggleCaught\<close> produces
  contains \<open>i\<close> exactly when the previous set did not, every other element is in it
  exactly when it was in the previous set, and toggling twice gives back a set with the
  elements of the original one. The previous set is an argument of the model and is
  returned unchanged inside the old state: the updater copies it.
\<close>

theorem toggleCaught_flips_membership:
  assumes "0 < i"
  shows "(setHas (caught (toggleCaught P i s)) (JNum (int i)) \<longleftrightarrow> \<not> setHas (caught s) (JNum (int i)))
    \<and> (\<forall>v. v \<noteq> JNum (int i) \<longrightarrow> (v \<in> set (caught (toggleCaught P i s)) \<longleftrightarrow> v \<in> set (caught s)))
    \<and> set (caught (toggleCaught P i (toggleCaught P i s))) = set (caught s)"
  using assms by (auto simp: toggleCaught_def Let_def set_toggleNext setHas_def)

theorem toggleCaught_flips_membership_witness:
  "\<not> setHas (caught (toggleCaught refPlatform 2 exampleCaught)) (JNum 2)
   \<and> setHas (caught (toggleCaught refPlatform 3 exampleCaught)) (JNum 3)
   \<and> JNum 1 \<in> set (caught (toggleCaught refPlatform 2 exampleCaught))
   \<and> set (caught (toggleCaught refPlatform 2 (toggleCaught refPlatform 2 exampleCaught)))
       = {JNum 1, JNum 2}"
proof -
  have two: "0 < (2::nat)" and three: "0 < (3::nat)" by simp_all
  have before: "setHas (caught exampleCaught) (JNum 2)" "\<not> setHas (caught exampleCaught) (JNum 3)"
    "set (caught exampleCaught) = {JNum 1, JNum 2}"
    by (auto simp: exampleCaught_def setHas_def)
  from toggleCaught_flips_membership [OF two, of refPlatform exampleCaught]
    toggleCaught_flips_membership [OF three, of refPlatform exampleCaught] before
  show ?thesis by auto
qed

text \<open>
  C4: on a storage that accepts the write, and on a platform whose JSON functions
  round-trip arrays of positive integers, loading after saving a set of positive integers
  returns that set (with its elements in the same order).
\<close>

theorem load_after_save_roundtrip:
  assumes "jsonRoundTrips P" and "access st = Available"
    and "distinct ns" and "\<forall>n\<in>set ns. 0 < n"
  shows "loadCaught P (saveCaught P (map (\<lambda>n. JNum (int n)) ns) st) = map (\<lambda>n. JNum (int n)) ns"
proof -
  let ?S = "map (\<lambda>n. JNum (int n)) ns"
  let ?raw = "JSON_stringify P (numArray ns)"
  from assms(1,4) have nonempty: "?raw \<noteq> []"
    and parse: "JSON_parse P ?raw = Inr (numArray ns)"
    by (simp_all add: jsonRoundTrips_def)
  have saved: "saveCaught P ?S st = st\<lparr>entries := (entries st)(LS_KEY \<mapsto> ?raw)\<rparr>"
    using assms(2) by (simp add: saveCaught_def setItem_def arrayFrom_def numArray_def)
  have "distinct ?S" using assms(3) by (simp add: distinct_map inj_on_def)
  then have "newSet ?S = ?S" by (rule newSet_distinct)
  then show ?thesis
    using nonempty parse assms(2)
    by (simp add: saved loadCaught_def loadCaught_try_def getItem_def numArray_def)
qed

theorem load_after_save_roundtrip_witness:
  "loadCaught refPlatform (saveCaught refPlatform [JNum 25, JNum 1, JNum 150] exampleStorage)
     = [JNum 25, JNum 1, JNum 150]"
proof -
  have writable: "access exampleStorage = Available" by (simp add: exampleStorage_def)
  have different: "distinct [25, 1, 150 :: nat]" by simp
  have positive: "\<forall>n\<in>set [25, 1, 150 :: nat]. 0 < n" by simp
  from load_after_save_roundtrip [OF refPlatform_jsonRoundTrips writable different positive]
  show ?thesis by simp
qed

text \<open>
  C5: \<open>loadCaught\<close> always returns a set, and it returns the empty set when the storage
  read throws, when the key is absent, and when the stored text does not parse as JSON.
\<close>

theorem loadCaught_fails_soft:
  "(getItem st LS_KEY = Inl e \<longrightarrow> loadCaught P st = [])
   \<and> (getItem st LS_KEY = Inr None \<longrightarrow> loadCaught P st = [])
   \<and> (getItem st LS_KEY = Inr (Some raw) \<and> JSON_parse P raw = Inl e' \<longrightarrow> loadCaught P st = [])"
  by (simp add: loadCaught_def loadCaught_try_def newSet_Nil)

theorem loadCaught_fails_soft_witness:
  "loadCaught refPlatform \<lparr>access = AccessDenied, entries = Map.empty\<rparr> = []
   \<and> loadCaught refPlatform exampleStorage = []
   \<and> loadCaught refPlatform (storedState (lit ''[1,2'')) = []"
proof -
  have throws: "getItem \<lparr>access = AccessDenied, entries = Map.empty\<rparr> LS_KEY = Inl SecurityError"
    by (simp add: getItem_def)
  have absent: "getItem exampleStorage LS_KEY = Inr None"
    by (simp add: getItem_def exampleStorage_def)
  have stored: "getItem (storedState (lit ''[1,2'')) LS_KEY = Inr (Some (lit ''[1,2''))"
    by (simp add: getItem_def storedState_def)
  have malformed: "JSON_parse refPlatform (lit ''[1,2'') = Inl SyntaxError"
    by (simp add: refPlatform_def refParse_def lit_def parseIntLit_def parseNatLit_def isDigit_def)
  from throws absent stored malformed
    loadCaught_fails_soft [of "\<lparr>access = AccessDenied, entries = Map.empty\<rparr>" SecurityError refPlatform]
    loadCaught_fails_soft [of exampleStorage _ refPlatform]
    loadCaught_fails_soft [of "storedState (lit ''[1,2'')" _ refPlatform "lit ''[1,2''" SyntaxError]
  show ?thesis by blast
qed

text \<open>
  C10: when the stored text parses to a JSON value that is not an array (an object, a
  number, a string, a boolean, null), \<open>loadCaught\<close> returns the empty set.
\<close>

theorem loadCaught_non_array:
  assumes "getItem st LS_KEY = Inr (Some raw)" and "JSON_parse P raw = Inr v"
    and "\<forall>xs. v \<noteq> JArr xs"
  shows "loadCaught P st = []"
  using assms by (cases v) (auto simp: loadCaught_def loadCaught_try_def newSet_Nil)

theorem loadCaught_non_array_witness:
  "loadCaught refPlatform (storedState (lit ''1025'')) = []"
proof -
  have stored: "getItem (storedState (lit ''1025'')) LS_KEY = Inr (Some (lit ''1025''))"
    by (simp add: getItem_def storedState_def)
  have parsed: "JSON_parse refPlatform (lit ''1025'') = Inr (JNum 1025)"
    by (simp add: refPlatform_def refParse_def lit_def parseIntLit_def parseNatLit_def isDigit_def
        digitsValue_def)
  have number: "\<forall>xs. JNum 1025 \<noteq> JArr xs" by simp
  from loadCaught_non_array [OF stored parsed number] show ?thesis .
qed

section \<open>Properties of the description selector\<close>

lemma scanPreferred_first:
  assumes "ps = qs @ p # qs'"
    and "\<forall>q\<in>set qs. \<forall>e\<in>set en. version_name e \<noteq> Some q"
    and "en = es @ e # es'" and "version_name e = Some p"
    and "\<forall>x\<in>set es. version_name x \<noteq> Some p"
  shows "scanPreferred ps en = Some e"
  using assms
proof (induction qs arbitrary: ps)
  case Nil
  have "find (\<lambda>e. version_name e = Some p) (es @ e # es') = Some e"
    using Nil.prems(4,5) by (induction es) auto
  with Nil show ?case by simp
next
  case (Cons q qs)
  have "find (\<lambda>e. version_name e = Some q) en = None"
    using Cons.prems(2) by (auto simp: find_None_iff)
  moreover have "scanPreferred (qs @ p # qs') en = Some e"
    using Cons.prems by (intro Cons.IH) auto
  ultimately show ?case using Cons.prems(1) by simp
qed

lemma scanPreferred_none:
  "\<forall>e\<in>set en. \<forall>p\<in>set ps. version_name e \<noteq> Some p \<Longrightarrow> scanPreferred ps en = None"
  by (induction ps) (auto simp: find_None_iff split: option.splits)

subsection \<open>White space after \<open>replace\<close> and \<open>trim\<close>\<close>

lemma replaceWsRuns_Nil_iff: "replaceWsRuns s = [] \<longleftrightarrow> s = []"
  by (cases s) auto

lemma replaceWsRuns_hd:
  "s \<noteq> [] \<Longrightarrow> isWhiteSpace (hd (replaceWsRuns s)) = isWhiteSpace (hd s)"
  by (cases s) (auto simp: isWhiteSpace_def)

lemma replaceWsRuns_only_spaces:
  "c \<in> set (replaceWsRuns s) \<Longrightarrow> isWhiteSpace c \<Longrightarrow> c = 32"
  by (induction s rule: replaceWsRuns.induct) (auto split: if_splits)

lemma replaceWsRuns_no_runs:
  "successively (\<lambda>a b. \<not> (isWhiteSpace a \<and> isWhiteSpace b)) (replaceWsRuns s)"
proof (induction s rule: replaceWsRuns.induct)
  case 1
  then show ?case by simp
next
  case (2 c cs)
  show ?case
  proof (cases "isWhiteSpace c")
    case True
    let ?rest = "dropWhile isWhiteSpace cs"
    have "\<not> isWhiteSpace (hd (replaceWsRuns ?rest))" if "replaceWsRuns ?rest \<noteq> []"
    proof -
      from that have ne: "?rest \<noteq> []" by (simp add: replaceWsRuns_Nil_iff)
      then have "\<not> isWhiteSpace (hd ?rest)" by (rule hd_dropWhile)
      with ne show ?thesis by (simp add: replaceWsRuns_hd)
    qed
    with True 2(1) show ?thesis by (auto simp: successively_Cons)
  next
    case False
    with 2(2) show ?thesis by (auto simp: successively_Cons)
  qed
qed

lemma successively_dropWhile: "successively R xs \<Longrightarrow> successively R (dropWhile Q xs)"
  by (induction xs) (auto simp: successively_Cons)

lemma last_dropWhile: "dropWhile Q xs \<noteq> [] \<Longrightarrow> last (dropWhile Q xs) = last xs"
  by (induction xs) (auto split: if_splits)

lemma set_dropWhile_subset: "set (dropWhile Q xs) \<subseteq> set xs"
  using set_dropWhileD by fast

lemma trim_subset: "set (trim t) \<subseteq> set t"
proof -
  have "set (trim t) = set (dropWhile isWhiteSpace (rev (dropWhile isWhiteSpace t)))"
    by (simp add: trim_def)
  also have "\<dots> \<subseteq> set (rev (dropWhile isWhiteSpace t))" by (rule set_dropWhile_subset)
  also have "\<dots> = set (dropWhile isWhiteSpace t)" by simp
  also have "\<dots> \<subseteq> set t" by (rule set_dropWhile_subset)
  finally show ?thesis .
qed

lemma successively_rev_sym:
  assumes "\<And>a b. R a b \<Longrightarrow> R b a" and "successively R xs"
  shows "successively R (rev xs)"
proof -
  from assms(2) have "successively (\<lambda>x y. R y x) xs"
    by (rule successively_mono) (rule assms(1))
  then show ?thesis by (simp only: successively_rev)
qed

lemma trim_successively:
  assumes "successively (\<lambda>a b. \<not> (isWhiteSpace a \<and> isWhiteSpace b)) t"
  shows "successively (\<lambda>a b. \<not> (isWhiteSpace a \<and> isWhiteSpace b)) (trim t)"
proof -
  let ?R = "\<lambda>a b. \<not> (isWhiteSpace a \<and> isWhiteSpace b)"
  have sym: "?R a b \<Longrightarrow> ?R b a" for a b by blast
  from assms have "successively ?R (dropWhile isWhiteSpace t)" by (rule successively_dropWhile)
  then have "successively ?R (rev (dropWhile isWhiteSpace t))"
    by (rule successively_rev_sym[rotated]) (rule sym)
  then have "successively ?R (dropWhile isWhiteSpace (rev (dropWhile isWhiteSpace t)))"
    by (rule successively_dropWhile)
  then have "successively ?R (rev (dropWhile isWhiteSpace (rev (dropWhile isWhiteSpace t))))"
    by (rule successively_rev_sym[rotated]) (rule sym)
  then show ?thesis by (simp only: trim_def)
qed

lemma trim_ends:
  assumes "trim t \<noteq> []"
  shows "\<not> isWhiteSpace (hd (trim t)) \<and> \<not> isWhiteSpace (last (trim t))"
proof -
  let ?a = "dropWhile isWhiteSpace t"
  let ?b = "dropWhile isWhiteSpace (rev ?a)"
  from assms have b: "?b \<noteq> []" by (simp add: trim_def)
  have a: "?a \<noteq> []"
  proof
    assume "?a = []"
    then have "?b = []" by (metis dropWhile.simps(1) rev.simps(1))
    with b show False by blast
  qed
  have "last (trim t) = hd ?b" by (simp add: trim_def last_rev)
  moreover have "\<not> isWhiteSpace (hd ?b)" using b by (rule hd_dropWhile)
  moreover have "hd (trim t) = last ?b" by (simp add: trim_def hd_rev)
  moreover have "last ?b = last (rev ?a)" using b by (rule last_dropWhile)
  moreover have "last (rev ?a) = hd ?a" by (simp add: last_rev)
  moreover have "\<not> isWhiteSpace (hd ?a)" using a by (rule hd_dropWhile)
  ultimately show ?thesis by simp
qed

lemma singleSpaced_normalized: "singleSpaced (trim (replaceWsRuns s))"
proof -
  let ?t = "trim (replaceWsRuns s)"
  have space: "isWhiteSpace 32" by (simp add: isWhiteSpace_def)
  have only: "\<forall>c\<in>set ?t. isWhiteSpace c \<longrightarrow> c = 32"
    using trim_subset[of "replaceWsRuns s"] replaceWsRuns_only_spaces[of _ s] by blast
  have "successively (\<lambda>a b. \<not> (isWhiteSpace a \<and> isWhiteSpace b)) ?t"
    by (rule trim_successively[OF replaceWsRuns_no_runs])
  then have runs: "successively (\<lambda>a b. \<not> (a = 32 \<and> b = 32)) ?t"
    by (rule successively_mono) (use space in auto)
  have "?t \<noteq> [] \<longrightarrow> hd ?t \<noteq> 32 \<and> last ?t \<noteq> 32"
    using trim_ends[of "replaceWsRuns s"] space by metis
  with only runs show ?thesis by (simp add: singleSpaced_def)
qed

text \<open>Only white space is removed: the other code units stay, in their order.\<close>

lemma replaceWsRuns_keeps_text:
  "filter (\<lambda>c. \<not> isWhiteSpace c) (replaceWsRuns s) = filter (\<lambda>c. \<not> isWhiteSpace c) s"
proof (induction s rule: replaceWsRuns.induct)
  case 1
  then show ?case by simp
next
  case (2 c cs)
  have drop: "filter (\<lambda>c. \<not> isWhiteSpace c) (dropWhile isWhiteSpace cs)
      = filter (\<lambda>c. \<not> isWhiteSpace c) cs"
    by (induction cs) auto
  show ?case
  proof (cases "isWhiteSpace c")
    case True
    with 2(1) drop show ?thesis by (simp add: isWhiteSpace_def)
  next
    case False
    with 2(2) show ?thesis by simp
  qed
qed

lemma trim_keeps_text:
  "filter (\<lambda>c. \<not> isWhiteSpace c) (trim t) = filter (\<lambda>c. \<not> isWhiteSpace c) t"
proof -
  have drop: "filter (\<lambda>c. \<not> isWhiteSpace c) (dropWhile isWhiteSpace xs)
      = filter (\<lambda>c. \<not> isWhiteSpace c) xs" for xs
    by (induction xs) auto
  show ?thesis by (simp add: trim_def drop flip: rev_filter)
qed

text \<open>
  C6: \<open>bestEnglishFlavor\<close> is a total function of the candidate list. With \<open>en\<close> the
  entries whose language is \<open>"en"\<close>: if \<open>en\<close> is empty the result is the empty string; if
  \<open>p\<close> is the first version of the preference list that some entry of \<open>en\<close> has, and \<open>e\<close> is
  the first entry of \<open>en\<close> with version \<open>p\<close>, the result is the text of \<open>e\<close> with its white
  space runs replaced by single spaces and then trimmed; if no entry of \<open>en\<close> has a
  preferred version, the result is the text of the last entry of \<open>en\<close>, treated the same.
  In every case the only white space in the result is single spaces between other code
  units.
\<close>

theorem bestEnglishFlavor_selects:
  "(englishEntries sp = [] \<longrightarrow> bestEnglishFlavor sp = [])
   \<and> (preferred = qs @ p # qs'
        \<and> (\<forall>q\<in>set qs. \<forall>x\<in>set (englishEntries sp). version_name x \<noteq> Some q)
        \<and> englishEntries sp = es @ e # es' \<and> version_name e = Some p
        \<and> (\<forall>x\<in>set es. version_name x \<noteq> Some p)
      \<longrightarrow> bestEnglishFlavor sp = trim (replaceWsRuns (flavor_text e)))
   \<and> (englishEntries sp \<noteq> []
        \<and> (\<forall>x\<in>set (englishEntries sp). \<forall>q\<in>set preferred. version_name x \<noteq> Some q)
      \<longrightarrow> bestEnglishFlavor sp = trim (replaceWsRuns (flavor_text (last (englishEntries sp)))))
   \<and> singleSpaced (bestEnglishFlavor sp)"
proof (intro conjI impI)
  have "singleSpaced []" by (simp add: singleSpaced_def)
  then show "singleSpaced (bestEnglishFlavor sp)"
    by (simp add: bestEnglishFlavor_def Let_def singleSpaced_normalized split: option.splits)
next
  assume "englishEntries sp = []"
  then show "bestEnglishFlavor sp = []" by (simp add: bestEnglishFlavor_def)
next
  assume a: "preferred = qs @ p # qs'
        \<and> (\<forall>q\<in>set qs. \<forall>x\<in>set (englishEntries sp). version_name x \<noteq> Some q)
        \<and> englishEntries sp = es @ e # es' \<and> version_name e = Some p
        \<and> (\<forall>x\<in>set es. version_name x \<noteq> Some p)"
  then have "scanPreferred preferred (englishEntries sp) = Some e"
    by (intro scanPreferred_first[of preferred qs p qs' "englishEntries sp" es e es']) auto
  moreover from a have "englishEntries sp \<noteq> []" by auto
  ultimately show "bestEnglishFlavor sp = trim (replaceWsRuns (flavor_text e))"
    by (simp add: bestEnglishFlavor_def)
next
  assume a: "englishEntries sp \<noteq> []
        \<and> (\<forall>x\<in>set (englishEntries sp). \<forall>q\<in>set preferred. version_name x \<noteq> Some q)"
  then have "scanPreferred preferred (englishEntries sp) = None"
    by (intro scanPreferred_none) auto
  with a show "bestEnglishFlavor sp = trim (replaceWsRuns (flavor_text (last (englishEntries sp))))"
    by (simp add: bestEnglishFlavor_def)
qed

theorem bestEnglishFlavor_selects_witness:
  "bestEnglishFlavor None = []
   \<and> bestEnglishFlavor (Some exampleSpecies) = lit ''While it is young, it uses''
   \<and> bestEnglishFlavor (Some exampleOldSpecies) = lit ''It can go for days''"
proof (intro conjI)
  show "bestEnglishFlavor None = []"
    using bestEnglishFlavor_selects [where sp = None]
    by (simp add: englishEntries_def)
next
  let ?e = "entryOf ''en'' ''scarlet''
        ([32, 10] @ lit ''While it is'' @ [10, 12] @ lit ''young,  it uses'' @ [160, 9])"
  have "bestEnglishFlavor (Some exampleSpecies) = trim (replaceWsRuns (flavor_text ?e))"
    using bestEnglishFlavor_selects [where sp = "Some exampleSpecies" and qs = "[]"
        and p = "lit ''scarlet''" and qs' = "tl preferred" and e = ?e and es' = "[]"
        and es = "[entryOf ''en'' ''red'' (lit ''A strange seed''),
                   entryOf ''en'' ''sword'' (lit ''old text'')]"]
    by (simp add: exampleSpecies_def entryOf_def englishEntries_def preferred_def lit_def)
  then show "bestEnglishFlavor (Some exampleSpecies) = lit ''While it is young, it uses''"
    by (simp add: entryOf_def lit_def trim_def isWhiteSpace_def)
next
  have "bestEnglishFlavor (Some exampleOldSpecies)
      = trim (replaceWsRuns (flavor_text (last (englishEntries (Some exampleOldSpecies)))))"
    using bestEnglishFlavor_selects [where sp = "Some exampleOldSpecies"]
    by (simp add: exampleOldSpecies_def entryOf_def englishEntries_def preferred_def lit_def)
  then show "bestEnglishFlavor (Some exampleOldSpecies) = lit ''It can go for days''"
    by (simp add: exampleOldSpecies_def entryOf_def englishEntries_def lit_def trim_def
        isWhiteSpace_def)
qed

section \<open>Properties of the list view filter\<close>

lemma includes_iff: "stringIncludes s t \<longleftrightarrow> (\<exists>ps ss. s = ps @ t @ ss)"
proof (induction s)
  case Nil
  then show ?case by auto
next
  case (Cons c cs)
  have "take (length t) (c # cs) = t \<longleftrightarrow> (\<exists>ss. c # cs = t @ ss)"
    by (metis append_eq_conv_conj append_take_drop_id)
  moreover have "(\<exists>ps ss. c # cs = ps @ t @ ss)
      \<longleftrightarrow> (\<exists>ss. c # cs = t @ ss) \<or> (\<exists>ps ss. cs = ps @ t @ ss)"
  proof
    assume "\<exists>ps ss. c # cs = ps @ t @ ss"
    then obtain ps ss where eq: "c # cs = ps @ t @ ss" by blast
    show "(\<exists>ss. c # cs = t @ ss) \<or> (\<exists>ps ss. cs = ps @ t @ ss)"
    proof (cases ps)
      case Nil
      with eq show ?thesis by auto
    next
      case (Cons a as)
      with eq have "cs = as @ t @ ss" by simp
      then show ?thesis by blast
    qed
  next
    assume "(\<exists>ss. c # cs = t @ ss) \<or> (\<exists>ps ss. cs = ps @ t @ ss)"
    then show "\<exists>ps ss. c # cs = ps @ t @ ss"
    proof
      assume "\<exists>ss. c # cs = t @ ss"
      then obtain ss where "c # cs = [] @ t @ ss" by auto
      then show ?thesis by blast
    next
      assume "\<exists>ps ss. cs = ps @ t @ ss"
      then obtain ps ss where "c # cs = (c # ps) @ t @ ss" by auto
      then show ?thesis by blast
    qed
  qed
  ultimately show ?case using Cons.IH by simp
qed

lemma filtered_exact:
  "filtered P its q m caughtSet =
     filter (\<lambda>p. (toLowerCase P (trim q) = []
                     \<or> stringIncludes (item_name p) (toLowerCase P (trim q))
                     \<or> stringIncludes (decimal (item_id p)) (toLowerCase P (trim q)))
                 \<and> (m = ModeAll
                    \<or> m = ModeMissing \<and> \<not> setHas caughtSet (JNum (int (item_id p)))
                    \<or> m = ModeCaught \<and> setHas caughtSet (JNum (int (item_id p)))))
       its"
  unfolding filtered_def Let_def filter_filter
  by (rule filter_cong) (auto intro: mode.exhaust)

text \<open>
  C7 as stated fails: the source trims the search text before it compares. For the search
  text \<open>"chu "\<close> the source keeps \<open>pikachu\<close> and \<open>raichu\<close>, whose names do not contain the
  search text itself.
\<close>

theorem filtered_trims_query_counterexample:
  "filtered refPlatform [pokemonItem 1 ''bulbasaur'', pokemonItem 25 ''pikachu'', pokemonItem 26 ''raichu'']
       (lit ''chu '') ModeAll []
     \<noteq> filterList_spec refPlatform
       [pokemonItem 1 ''bulbasaur'', pokemonItem 25 ''pikachu'', pokemonItem 26 ''raichu'']
       (lit ''chu '') ModeAll []
   \<and> filtered refPlatform [pokemonItem 1 ''bulbasaur'', pokemonItem 25 ''pikachu'', pokemonItem 26 ''raichu'']
       (lit ''chu '') ModeAll []
     = [pokemonItem 25 ''pikachu'', pokemonItem 26 ''raichu'']
   \<and> filterList_spec refPlatform
       [pokemonItem 1 ''bulbasaur'', pokemonItem 25 ''pikachu'', pokemonItem 26 ''raichu'']
       (lit ''chu '') ModeAll []
     = []"
  by (simp add: filtered_exact filterList_spec_def pokemonItem_def refPlatform_def lit_def
      trim_def isWhiteSpace_def asciiLower_def decimal.simps)

text \<open>
  C7, amended: the search text is first trimmed and put in lower case. For items whose
  names are in lower case, the result is the list of the items, in input order, that pass
  both tests: the query test (the trimmed lower-case query is empty, or the name contains
  it, compared without regard to case, or the decimal text of the index contains it) and
  the mode test.
\<close>

theorem filtered_amended:
  assumes "\<forall>p\<in>set its. toLowerCase P (item_name p) = item_name p"
  shows "filtered P its q m caughtSet =
     filter (\<lambda>p. (toLowerCase P (trim q) = []
                     \<or> stringIncludes (toLowerCase P (item_name p)) (toLowerCase P (trim q))
                     \<or> stringIncludes (decimal (item_id p)) (toLowerCase P (trim q)))
                 \<and> (m = ModeAll
                    \<or> m = ModeMissing \<and> \<not> setHas caughtSet (JNum (int (item_id p)))
                    \<or> m = ModeCaught \<and> setHas caughtSet (JNum (int (item_id p)))))
       its"
  unfolding filtered_exact using assms by (intro filter_cong) auto

theorem filtered_amended_witness:
  "filtered refPlatform [pokemonItem 1 ''bulbasaur'', pokemonItem 2 ''ivysaur'', pokemonItem 3 ''venusaur'']
       [] ModeMissing [JNum 3]
     = [pokemonItem 1 ''bulbasaur'', pokemonItem 2 ''ivysaur'']
   \<and> filtered refPlatform [pokemonItem 1 ''bulbasaur'', pokemonItem 25 ''pikachu'', pokemonItem 125 ''electabuzz'']
       (lit '' PIKA'') ModeCaught [JNum 25, JNum 1]
     = [pokemonItem 25 ''pikachu'']
   \<and> filtered refPlatform [pokemonItem 1 ''bulbasaur'', pokemonItem 25 ''pikachu'', pokemonItem 125 ''electabuzz'']
       (lit ''25'') ModeAll []
     = [pokemonItem 25 ''pikachu'', pokemonItem 125 ''electabuzz'']"
proof -
  have lower: "\<forall>p\<in>set [pokemonItem 1 ''bulbasaur'', pokemonItem 2 ''ivysaur'', pokemonItem 3 ''venusaur''].
      toLowerCase refPlatform (item_name p) = item_name p"
    "\<forall>p\<in>set [pokemonItem 1 ''bulbasaur'', pokemonItem 25 ''pikachu'', pokemonItem 125 ''electabuzz''].
      toLowerCase refPlatform (item_name p) = item_name p"
    by (simp_all add: pokemonItem_def refPlatform_def lit_def asciiLower_def)
  from filtered_amended [OF lower(1), of "[]" ModeMissing "[JNum 3]"]
    filtered_amended [OF lower(2), of "lit '' PIKA''" ModeCaught "[JNum 25, JNum 1]"]
    filtered_amended [OF lower(2), of "lit ''25''" ModeAll "[]"]
  show ?thesis
    by (simp add: pokemonItem_def refPlatform_def lit_def trim_def isWhiteSpace_def asciiLower_def
        decimal.simps setHas_def)
qed

section \<open>Comparison by code units and sorting\<close>

lemma codeUnitCompare_refl: "codeUnitCompare a a = 0"
  by (induction a) auto

lemma codeUnitCompare_eq_0: "codeUnitCompare a b = 0 \<Longrightarrow> a = b"
  by (induction a b rule: codeUnitCompare.induct) (auto split: if_splits)

lemma codeUnitCompare_swap: "codeUnitCompare a b < 0 \<longleftrightarrow> 0 < codeUnitCompare b a"
  by (induction a b rule: codeUnitCompare.induct) auto

text \<open>A negative result is the strict lexicographic order on the code units.\<close>

lemma codeUnitCompare_lexord:
  "codeUnitCompare a b < 0 \<longleftrightarrow> (a, b) \<in> lexord {(x, y). x < y}"
  by (induction a b rule: codeUnitCompare.induct) auto

lemma codeUnitCompare_le_iff:
  "codeUnitCompare a b \<le> 0 \<longleftrightarrow> a = b \<or> (a, b) \<in> lexord {(x, y). x < y}"
  using codeUnitCompare_lexord[of a b] codeUnitCompare_eq_0[of a b] codeUnitCompare_refl[of a]
  by (cases "codeUnitCompare a b = 0") auto

lemma trans_less_nat: "trans {(x :: nat, y). x < y}"
  by (auto simp: trans_def)

lemma codeUnitCompare_trans:
  "codeUnitCompare a b \<le> 0 \<Longrightarrow> codeUnitCompare b c \<le> 0 \<Longrightarrow> codeUnitCompare a c \<le> 0"
  unfolding codeUnitCompare_le_iff
  using lexord_trans[OF _ _ trans_less_nat, of a b c] by auto

lemma consistent_codeUnitCompare: "consistentComparator codeUnitCompare"
  unfolding consistentComparator_def
  using codeUnitCompare_refl codeUnitCompare_swap codeUnitCompare_trans by blast

lemma consistent_on_key:
  "consistentComparator cmp \<Longrightarrow> consistentComparator (\<lambda>a b. cmp (f a) (f b))"
  unfolding consistentComparator_def by blast

lemma mset_insertSorted: "mset (insertSorted cmp x xs) = add_mset x (mset xs)"
  by (induction xs) auto

lemma mset_arraySort: "mset (arraySort cmp xs) = mset xs"
  by (induction xs) (auto simp: arraySort_def mset_insertSorted)

lemma set_arraySort: "set (arraySort cmp xs) = set xs"
  using mset_arraySort[of cmp xs] by (metis set_mset_mset)

lemma distinct_arraySort: "distinct (arraySort cmp xs) = distinct xs"
  using mset_arraySort[of cmp xs] by (metis distinct_count_atmost_1 set_arraySort)

lemma set_insertSorted: "set (insertSorted cmp x xs) = insert x (set xs)"
  using mset_insertSorted[of cmp x xs] by (metis set_mset_add_mset_insert set_mset_mset)

lemma sorted_insertSorted:
  assumes "consistentComparator cmp" and "sorted_wrt (\<lambda>a b. cmp a b \<le> 0) xs"
  shows "sorted_wrt (\<lambda>a b. cmp a b \<le> 0) (insertSorted cmp x xs)"
  using assms(2)
proof (induction xs)
  case Nil
  then show ?case by simp
next
  case (Cons y ys)
  show ?case
  proof (cases "cmp x y \<le> 0")
    case True
    have "cmp x z \<le> 0" if "z \<in> set ys" for z
      using assms(1) True Cons.prems that unfolding consistentComparator_def
      by (metis sorted_wrt.simps(2))
    with True Cons.prems show ?thesis by simp
  next
    case False
    then have "cmp y x \<le> 0"
      using assms(1) unfolding consistentComparator_def
      by (metis linorder_not_le order_less_imp_le)
    with False Cons show ?thesis by (auto simp: set_insertSorted)
  qed
qed

lemma sorted_arraySort:
  "consistentComparator cmp \<Longrightarrow> sorted_wrt (\<lambda>a b. cmp a b \<le> 0) (arraySort cmp xs)"
  by (induction xs) (auto simp: arraySort_def intro: sorted_insertSorted)

text \<open>
  Two sorted arrangements of the same distinct elements are equal when no two different
  elements compare as equal.
\<close>

lemma sorted_distinct_unique:
  assumes "sorted_wrt (\<lambda>a b. cmp a b \<le> 0) xs" and "sorted_wrt (\<lambda>a b. cmp a b \<le> 0) ys"
    and "distinct xs" and "distinct ys" and "set xs = set ys"
    and "\<forall>a\<in>set xs. \<forall>b\<in>set xs. cmp a b \<le> 0 \<and> cmp b a \<le> 0 \<longrightarrow> a = b"
  shows "xs = ys"
  using assms
proof (induction xs arbitrary: ys)
  case Nil
  then show ?case by simp
next
  case (Cons x xs)
  from Cons.prems(5) obtain y ys' where ys: "ys = y # ys'" by (cases ys) auto
  have "x = y"
  proof (rule ccontr)
    assume neq: "x \<noteq> y"
    with Cons.prems(5) ys have "x \<in> set ys'" and "y \<in> set xs" by auto
    with Cons.prems(1,2) ys have "cmp y x \<le> 0" and "cmp x y \<le> 0" by auto
    moreover have "x \<in> set (x # xs)" and "y \<in> set (x # xs)"
      using \<open>y \<in> set xs\<close> by auto
    ultimately have "x = y" using Cons.prems(6) by blast
    with neq show False by simp
  qed
  moreover have "xs = ys'"
  proof (rule Cons.IH)
    show "sorted_wrt (\<lambda>a b. cmp a b \<le> 0) xs" using Cons.prems(1) by simp
    show "sorted_wrt (\<lambda>a b. cmp a b \<le> 0) ys'" using Cons.prems(2) ys by simp
    show "distinct xs" using Cons.prems(3) by simp
    show "distinct ys'" using Cons.prems(4) ys by simp
    show "set xs = set ys'"
      using Cons.prems(3,4,5) ys \<open>x = y\<close> by auto
    show "\<forall>a\<in>set xs. \<forall>b\<in>set xs. cmp a b \<le> 0 \<and> cmp b a \<le> 0 \<longrightarrow> a = b"
      using Cons.prems(6) by auto
  qed
  ultimately show ?case using ys by simp
qed

lemma arraySort_codeUnitCompare_unique:
  assumes "distinct xs" and "distinct ys" and "set xs = set ys"
  shows "arraySort codeUnitCompare xs = arraySort codeUnitCompare ys"
proof (rule sorted_distinct_unique)
  show "sorted_wrt (\<lambda>a b. codeUnitCompare a b \<le> 0) (arraySort codeUnitCompare xs)"
    by (rule sorted_arraySort[OF consistent_codeUnitCompare])
  show "sorted_wrt (\<lambda>a b. codeUnitCompare a b \<le> 0) (arraySort codeUnitCompare ys)"
    by (rule sorted_arraySort[OF consistent_codeUnitCompare])
  show "distinct (arraySort codeUnitCompare xs)" using assms(1) by (simp add: distinct_arraySort)
  show "distinct (arraySort codeUnitCompare ys)" using assms(2) by (simp add: distinct_arraySort)
  show "set (arraySort codeUnitCompare xs) = set (arraySort codeUnitCompare ys)"
    using assms(3) by (simp add: set_arraySort)
  show "\<forall>a\<in>set (arraySort codeUnitCompare xs). \<forall>b\<in>set (arraySort codeUnitCompare xs).
          codeUnitCompare a b \<le> 0 \<and> codeUnitCompare b a \<le> 0 \<longrightarrow> a = b"
    using codeUnitCompare_swap codeUnitCompare_eq_0
    by (metis linorder_not_le order_antisym_conv)
qed

text \<open>A sorted arrangement of distinct strings is strictly increasing.\<close>

lemma sorted_wrt_distinct_strict:
  "sorted_wrt R xs \<Longrightarrow> distinct xs \<Longrightarrow> sorted_wrt (\<lambda>a b. R a b \<and> a \<noteq> b) xs"
  by (induction xs) auto

lemma arraySort_codeUnitCompare_strict:
  assumes "distinct xs"
  shows "sorted_wrt (\<lambda>a b. (a, b) \<in> lexord {(x, y). x < y}) (arraySort codeUnitCompare xs)"
proof -
  have "sorted_wrt (\<lambda>a b. codeUnitCompare a b \<le> 0 \<and> a \<noteq> b) (arraySort codeUnitCompare xs)"
    using sorted_arraySort[OF consistent_codeUnitCompare, of xs] assms
    by (intro sorted_wrt_distinct_strict) (simp_all add: distinct_arraySort)
  then show ?thesis
    by (rule sorted_wrt_mono_rel[rotated]) (auto simp: codeUnitCompare_le_iff)
qed

section \<open>Properties of the encounter normalizer\<close>

lemma pairsOf_Nil: "pairsOf [] = {}"
  by (simp add: pairsOf_def)

lemma pairsOf_Cons: "pairsOf ((k, s) # g) = {(k, l) | l. l \<in> set s} \<union> pairsOf g"
  by (auto simp: pairsOf_def)

lemma addLocation_pairs: "pairsOf (addLocation g v l) = insert (v, l) (pairsOf g)"
  by (induction g v l rule: addLocation.induct) (auto simp: pairsOf_Cons pairsOf_Nil)

lemma addLocation_keys: "fst ` set (addLocation g v l) = insert v (fst ` set g)"
  by (induction g v l rule: addLocation.induct) auto

lemma addLocation_wellFormed: "wellFormed g \<Longrightarrow> wellFormed (addLocation g v l)"
proof (induction g v l rule: addLocation.induct)
  case (1 v loc)
  then show ?case by (simp add: wellFormed_def)
next
  case (2 k s g v loc)
  show ?case
  proof (cases "k = v")
    case True
    with 2(2) show ?thesis by (auto simp: wellFormed_def)
  next
    case False
    from 2(2) have "wellFormed g" by (auto simp: wellFormed_def)
    with 2(1) False have wf: "wellFormed (addLocation g v loc)" by simp
    have "k \<notin> fst ` set (addLocation g v loc)"
      using 2(2) False by (auto simp: addLocation_keys wellFormed_def)
    with wf 2(2) False show ?thesis by (auto simp: wellFormed_def)
  qed
qed

lemma detailsLoop_Inr:
  assumes "detailsLoop loc vds g = Inr g'"
  shows "pairsOf g' = pairsOf g \<union> {(v, l). v \<noteq> [] \<and> l \<noteq> [] \<and> loc = Some l \<and> Some v \<in> set vds}
         \<and> (wellFormed g \<longrightarrow> wellFormed g')"
  using assms
proof (induction vds arbitrary: g)
  case Nil
  then show ?case by simp
next
  case (Cons vd vds)
  show ?case
  proof (cases "\<exists>v l. vd = Some v \<and> loc = Some l \<and> v \<noteq> [] \<and> l \<noteq> []")
    case True
    then obtain v l where vl: "vd = Some v" "loc = Some l" "v \<noteq> []" "l \<noteq> []" by blast
    with Cons.prems have "detailsLoop loc vds (addLocation g v l) = Inr g'"
      by (simp split: if_splits)
    from Cons.IH[OF this] vl show ?thesis
      by (auto simp: addLocation_pairs addLocation_wellFormed)
  next
    case False
    with Cons.prems have "detailsLoop loc vds g = Inr g'"
      by (auto split: option.splits if_splits)
    from Cons.IH[OF this] False show ?thesis by auto
  qed
qed

lemma detailsLoop_Inl:
  "detailsLoop loc vds g = Inl e \<longleftrightarrow>
     e = TypeError \<and> (\<exists>v l. v \<noteq> [] \<and> l \<noteq> [] \<and> loc = Some l \<and> Some v \<in> set vds
                          \<and> v \<in> set objectPrototypeKeys)"
proof (induction vds arbitrary: g)
  case Nil
  then show ?case by simp
next
  case (Cons vd vds)
  show ?case
  proof (cases "\<exists>v l. vd = Some v \<and> loc = Some l \<and> v \<noteq> [] \<and> l \<noteq> []")
    case True
    then obtain v l where vl: "vd = Some v" "loc = Some l" "v \<noteq> []" "l \<noteq> []" by blast
    show ?thesis
    proof (cases "v \<in> set objectPrototypeKeys")
      case True
      with vl show ?thesis by auto
    next
      case False
      with vl have "detailsLoop loc (vd # vds) g = detailsLoop loc vds (addLocation g v l)"
        by simp
      with Cons.IH[of "addLocation g v l"] vl False show ?thesis by auto
    qed
  next
    case False
    then have "detailsLoop loc (vd # vds) g = detailsLoop loc vds g"
      by (auto split: option.splits)
    with Cons.IH[of g] False show ?thesis by auto
  qed
qed

lemma rowPairs_alt:
  "rowPairs row = {(v, l). v \<noteq> [] \<and> l \<noteq> [] \<and> location_area_name row = Some l
                          \<and> Some v \<in> set (version_details row)}"
  by (simp add: rowPairs_def)

lemma rowsLoop_Inr:
  assumes "rowsLoop rows g = Inr g'"
  shows "pairsOf g' = pairsOf g \<union> validPairs rows \<and> (wellFormed g \<longrightarrow> wellFormed g')"
  using assms
proof (induction rows arbitrary: g)
  case Nil
  then show ?case by (simp add: validPairs_def)
next
  case (Cons row rows)
  from Cons.prems obtain g1 where
    g1: "detailsLoop (location_area_name row) (version_details row) g = Inr g1"
    and rest: "rowsLoop rows g1 = Inr g'"
    by (auto split: sum.splits)
  from detailsLoop_Inr[OF g1] have "pairsOf g1 = pairsOf g \<union> rowPairs row"
    and "wellFormed g \<longrightarrow> wellFormed g1"
    by (simp_all add: rowPairs_def)
  with Cons.IH[OF rest] show ?case by (auto simp: validPairs_def)
qed

lemma rowsLoop_Inl:
  "rowsLoop rows g = Inl e \<longleftrightarrow>
     e = TypeError \<and> (\<exists>(v, l)\<in>validPairs rows. v \<in> set objectPrototypeKeys)"
proof (induction rows arbitrary: g)
  case Nil
  then show ?case by (simp add: validPairs_def)
next
  case (Cons row rows)
  let ?d = "detailsLoop (location_area_name row) (version_details row) g"
  have bad: "(\<exists>(v, l)\<in>rowPairs row. v \<in> set objectPrototypeKeys) \<longleftrightarrow> ?d = Inl TypeError"
    unfolding detailsLoop_Inl rowPairs_def by auto
  show ?case
  proof (cases ?d)
    case (Inl e')
    then have "e' = TypeError" using detailsLoop_Inl by blast
    with Inl bad show ?thesis by (auto simp: validPairs_def)
  next
    case (Inr g1)
    with bad have "\<not> (\<exists>(v, l)\<in>rowPairs row. v \<in> set objectPrototypeKeys)" by simp
    with Inr Cons.IH[of g1] show ?thesis by (auto simp: validPairs_def)
  qed
qed

lemma wellFormed_Nil: "wellFormed []"
  by (simp add: wellFormed_def)

lemma keys_pairsOf: "wellFormed g \<Longrightarrow> fst ` set g = fst ` pairsOf g"
proof
  assume wf: "wellFormed g"
  show "fst ` set g \<subseteq> fst ` pairsOf g"
  proof
    fix k assume "k \<in> fst ` set g"
    then obtain s where ks: "(k, s) \<in> set g" by auto
    with wf have "s \<noteq> []" by (auto simp: wellFormed_def)
    then obtain l where "l \<in> set s" by (cases s) auto
    with ks have "(k, l) \<in> pairsOf g" by (auto simp: pairsOf_def)
    then show "k \<in> fst ` pairsOf g" by force
  qed
  show "fst ` pairsOf g \<subseteq> fst ` set g"
    by (force simp: pairsOf_def)
qed

lemma locationsOf_wellFormed:
  assumes "wellFormed g"
  shows "set (locationsOf g v) = {l. (v, l) \<in> pairsOf g} \<and> distinct (locationsOf g v)"
proof (cases "map_of g v")
  case None
  then have "v \<notin> fst ` set g" by (simp add: map_of_eq_None_iff)
  then have "(v, s) \<notin> set g" for s by (metis fst_conv image_eqI)
  then have "{l. (v, l) \<in> pairsOf g} = {}" by (simp add: pairsOf_def)
  with None show ?thesis by (simp add: locationsOf_def)
next
  case (Some s)
  from assms have d: "distinct (map fst g)" by (simp add: wellFormed_def)
  from Some have in_g: "(v, s) \<in> set g" by (rule map_of_SomeD)
  have same: "s' = s" if "(v, s') \<in> set g" for s'
  proof -
    from d that have "map_of g v = Some s'" by simp
    with Some show ?thesis by simp
  qed
  have "{l. (v, l) \<in> pairsOf g} = set s"
  proof
    show "{l. (v, l) \<in> pairsOf g} \<subseteq> set s"
      using same by (auto simp: pairsOf_def)
    show "set s \<subseteq> {l. (v, l) \<in> pairsOf g}"
      using in_g by (auto simp: pairsOf_def)
  qed
  moreover have "distinct s" using assms in_g by (auto simp: wellFormed_def)
  ultimately show ?thesis using Some by (simp add: locationsOf_def)
qed

lemma set_objectKeys: "set (objectKeys ob) = fst ` set ob"
  by (auto simp: objectKeys_def)

lemma distinct_objectKeys: "distinct (map fst ob) \<Longrightarrow> distinct (objectKeys ob)"
  by (auto simp: objectKeys_def)

lemma buildNormalized_apply:
  "buildNormalized g vs normalized v =
     (if v \<in> set vs then Some (arraySort codeUnitCompare (locationsOf g v)) else normalized v)"
  by (induction vs arbitrary: normalized) auto

lemma normalizeEncounterData_Inr_iff:
  "(\<exists>m. normalizeEncounterData P rows = Inr m)
     \<longleftrightarrow> fst ` validPairs rows \<inter> set objectPrototypeKeys = {}"
proof -
  have "(\<exists>m. normalizeEncounterData P rows = Inr m) \<longleftrightarrow> (\<exists>g. rowsLoop rows [] = Inr g)"
    by (auto simp: normalizeEncounterData_def Let_def split: sum.splits)
  also have "\<dots> \<longleftrightarrow> \<not> (\<exists>e. rowsLoop rows [] = Inl e)"
    by (cases "rowsLoop rows []") auto
  also have "\<dots> \<longleftrightarrow> fst ` validPairs rows \<inter> set objectPrototypeKeys = {}"
    unfolding rowsLoop_Inl by force
  finally show ?thesis .
qed

lemma normalizeEncounterData_Inr:
  assumes "normalizeEncounterData P rows = Inr m"
  obtains g where "rowsLoop rows [] = Inr g" and "wellFormed g"
    and "pairsOf g = validPairs rows"
    and "versions m = arraySort (\<lambda>a b. localeCompare P (versionLabel P a) (versionLabel P b))
                        (objectKeys g)"
    and "byVersion m = buildNormalized g (versions m) Map.empty"
proof -
  from assms obtain g where g: "rowsLoop rows [] = Inr g"
    by (auto simp: normalizeEncounterData_def split: sum.splits)
  from rowsLoop_Inr[OF g] have "pairsOf g = validPairs rows" and "wellFormed g"
    by (simp_all add: pairsOf_Nil wellFormed_Nil)
  moreover from assms g have
    "versions m = arraySort (\<lambda>a b. localeCompare P (versionLabel P a) (versionLabel P b))
                    (objectKeys g)"
    and "byVersion m = buildNormalized g (versions m) Map.empty"
    by (auto simp: normalizeEncounterData_def Let_def)
  ultimately show ?thesis using that g by blast
qed

text \<open>
  C8: \<open>normalizeEncounterData\<close> returns a map exactly when no version name of the input is
  a property that \<open>{}\<close> inherits. The versions of the map are the version names of the
  input, each once; the map \<open>byVersion\<close> is defined on exactly these; the list of a version
  holds the location names that the input pairs with it, strictly increasing in the
  lexicographic order of their code units (so each once); and the versions are sorted by
  \<open>localeCompare\<close> on their display labels.
\<close>

theorem normalizeEncounterData_groups_and_sorts:
  assumes "consistentComparator (localeCompare P)"
  shows "((\<exists>m. normalizeEncounterData P rows = Inr m)
            \<longleftrightarrow> fst ` validPairs rows \<inter> set objectPrototypeKeys = {})
    \<and> (\<forall>m. normalizeEncounterData P rows = Inr m \<longrightarrow>
          set (versions m) = fst ` validPairs rows
          \<and> distinct (versions m)
          \<and> dom (byVersion m) = set (versions m)
          \<and> (\<forall>v\<in>set (versions m). \<exists>ls. byVersion m v = Some ls
                \<and> set ls = {l. (v, l) \<in> validPairs rows}
                \<and> distinct ls
                \<and> sorted_wrt (\<lambda>a b. (a, b) \<in> lexord {(x, y). x < y}) ls)
          \<and> sorted_wrt (\<lambda>a b. localeCompare P (versionLabel P a) (versionLabel P b) \<le> 0)
                (versions m))"
proof (intro conjI allI impI)
  show "(\<exists>m. normalizeEncounterData P rows = Inr m)
          \<longleftrightarrow> fst ` validPairs rows \<inter> set objectPrototypeKeys = {}"
    by (rule normalizeEncounterData_Inr_iff)
next
  fix m assume m: "normalizeEncounterData P rows = Inr m"
  let ?cmp = "\<lambda>a b. localeCompare P (versionLabel P a) (versionLabel P b)"
  from m obtain g where wf: "wellFormed g" and pairs: "pairsOf g = validPairs rows"
    and vs: "versions m = arraySort ?cmp (objectKeys g)"
    and bv: "byVersion m = buildNormalized g (versions m) Map.empty"
    by (rule normalizeEncounterData_Inr)
  show keys: "set (versions m) = fst ` validPairs rows"
    using keys_pairsOf[OF wf] by (simp add: vs set_arraySort set_objectKeys pairs)
  show "distinct (versions m)"
    using wf by (simp add: vs distinct_arraySort distinct_objectKeys wellFormed_def)
  show "dom (byVersion m) = set (versions m)"
    by (auto simp: bv buildNormalized_apply dom_def)
  show "\<forall>v\<in>set (versions m). \<exists>ls. byVersion m v = Some ls
                \<and> set ls = {l. (v, l) \<in> validPairs rows}
                \<and> distinct ls
                \<and> sorted_wrt (\<lambda>a b. (a, b) \<in> lexord {(x, y). x < y}) ls"
  proof
    fix v assume v: "v \<in> set (versions m)"
    let ?ls = "arraySort codeUnitCompare (locationsOf g v)"
    from locationsOf_wellFormed[OF wf, of v]
    have s: "set (locationsOf g v) = {l. (v, l) \<in> validPairs rows}"
      and d: "distinct (locationsOf g v)" by (simp_all add: pairs)
    have "byVersion m v = Some ?ls" using v by (simp add: bv buildNormalized_apply)
    moreover have "set ?ls = {l. (v, l) \<in> validPairs rows}" by (simp add: set_arraySort s)
    moreover have "distinct ?ls" by (simp add: distinct_arraySort d)
    moreover have "sorted_wrt (\<lambda>a b. (a, b) \<in> lexord {(x, y). x < y}) ?ls"
      by (rule arraySort_codeUnitCompare_strict[OF d])
    ultimately show "\<exists>ls. byVersion m v = Some ls
                \<and> set ls = {l. (v, l) \<in> validPairs rows}
                \<and> distinct ls
                \<and> sorted_wrt (\<lambda>a b. (a, b) \<in> lexord {(x, y). x < y}) ls"
      by blast
  qed
  show "sorted_wrt (\<lambda>a b. localeCompare P (versionLabel P a) (versionLabel P b) \<le> 0)
          (versions m)"
    unfolding vs
    by (rule sorted_arraySort[OF consistent_on_key[OF assms]])
qed

lemmas normalize_eval =
  normalizeEncounterData_def rowOf_def lit_def objectKeys_def isArrayIndex_def isDigit_def
  digitsValue_def objectPrototypeKeys_def arraySort_def refPlatform_def versionLabel_def
  VERSION_LABELS_def titleCase_def capitalize_def isTitleSeparator_def isWhiteSpace_def
  asciiUpper_def locationsOf_def

lemma exampleRows_normalized:
  "normalizeEncounterData refPlatform exampleRows =
     Inr \<lparr>versions = [lit ''heartgold'', lit ''hearta'', lit ''red''],
          byVersion = [lit ''heartgold'' \<mapsto> [lit ''route-1''],
                       lit ''hearta'' \<mapsto> [lit ''route-2''],
                       lit ''red'' \<mapsto> [lit ''route-1'', lit ''route-2'']]\<rparr>"
  by (simp add: exampleRows_def normalize_eval)

lemma consistent_refPlatform: "consistentComparator (localeCompare refPlatform)"
  by (simp add: refPlatform_def consistent_codeUnitCompare)

theorem normalizeEncounterData_groups_and_sorts_witness:
  "\<exists>m. normalizeEncounterData refPlatform exampleRows = Inr m
     \<and> versions m = [lit ''heartgold'', lit ''hearta'', lit ''red'']
     \<and> byVersion m (lit ''red'') = Some [lit ''route-1'', lit ''route-2'']
     \<and> set (versions m) = fst ` validPairs exampleRows
     \<and> dom (byVersion m) = set (versions m)
     \<and> sorted_wrt (\<lambda>a b. localeCompare refPlatform (versionLabel refPlatform a)
                            (versionLabel refPlatform b) \<le> 0) (versions m)"
  using normalizeEncounterData_groups_and_sorts [OF consistent_refPlatform, of exampleRows]
    exampleRows_normalized
  by auto

section \<open>The encounter normalizer and the order of the rows\<close>

lemma validPairs_mset: "mset rows' = mset rows \<Longrightarrow> validPairs rows' = validPairs rows"
  using mset_eq_setD[of rows' rows] by (simp add: validPairs_def)

text \<open>
  C1 as stated fails. \<open>black-2\<close> has the label \<open>Black 2\<close> in the table and \<open>black_2\<close> gets
  the same label from \<open>titleCase\<close>; the comparison function returns zero for the two, and the
  stable sort leaves them in the order in which the rows first mention them.
\<close>

theorem normalizeEncounterData_order_counterexample:
  "mset [rowOf ''route-1'' [''black_2''], rowOf ''route-1'' [''black-2'']]
     = mset [rowOf ''route-1'' [''black-2''], rowOf ''route-1'' [''black_2'']]
   \<and> normalizeEncounterData refPlatform
        [rowOf ''route-1'' [''black_2''], rowOf ''route-1'' [''black-2'']]
     \<noteq> normalizeEncounterData refPlatform
        [rowOf ''route-1'' [''black-2''], rowOf ''route-1'' [''black_2'']]"
  by (simp add: normalize_eval)

text \<open>
  The same happens on every platform whose \<open>localeCompare\<close> finds a string equal to
  itself: \<open>a-b\<close> and \<open>a_b\<close> have the same label whatever \<open>toUpperCase\<close> does.
\<close>

lemma normalizeEncounterData_order_dependent:
  assumes "\<forall>s. localeCompare P s s = 0"
  shows "normalizeEncounterData P [rowOf ''x'' [''a_b''], rowOf ''x'' [''a-b'']]
     \<noteq> normalizeEncounterData P [rowOf ''x'' [''a-b''], rowOf ''x'' [''a_b'']]"
proof -
  have "versionLabel P (lit ''a_b'') = versionLabel P (lit ''a-b'')"
    by (simp add: versionLabel_def VERSION_LABELS_def titleCase_def lit_def
        isTitleSeparator_def isWhiteSpace_def)
  then have "localeCompare P (versionLabel P (lit ''a_b'')) (versionLabel P (lit ''a-b'')) = 0"
    and "localeCompare P (versionLabel P (lit ''a-b'')) (versionLabel P (lit ''a_b'')) = 0"
    using assms by simp_all
  then show ?thesis
    by (simp add: normalizeEncounterData_def rowOf_def objectKeys_def isArrayIndex_def
        isDigit_def objectPrototypeKeys_def arraySort_def lit_def)
qed

text \<open>
  C1, amended: for a permutation of the rows, \<open>normalizeEncounterData\<close> throws exactly when
  it throws for the original rows; otherwise the two maps have the same \<open>byVersion\<close>
  mapping, with identical location lists, and the same versions, and they are identical,
  versions in the same order, whenever no two different versions of the result have
  display labels that \<open>localeCompare\<close> finds equal.
\<close>

theorem normalizeEncounterData_permutation:
  assumes "consistentComparator (localeCompare P)" and "mset rows' = mset rows"
  shows "(\<forall>e. normalizeEncounterData P rows' = Inl e \<longleftrightarrow> normalizeEncounterData P rows = Inl e)
    \<and> (\<forall>m m'. normalizeEncounterData P rows = Inr m \<and> normalizeEncounterData P rows' = Inr m' \<longrightarrow>
          byVersion m' = byVersion m
          \<and> mset (versions m') = mset (versions m)
          \<and> ((\<forall>a\<in>set (versions m). \<forall>b\<in>set (versions m).
                 localeCompare P (versionLabel P a) (versionLabel P b) = 0 \<longrightarrow> a = b)
              \<longrightarrow> m' = m))"
proof (intro conjI allI impI)
  fix e
  have "normalizeEncounterData P rs = Inl e \<longleftrightarrow> rowsLoop rs [] = Inl e" for rs
    by (auto simp: normalizeEncounterData_def Let_def split: sum.splits)
  then show "normalizeEncounterData P rows' = Inl e \<longleftrightarrow> normalizeEncounterData P rows = Inl e"
    by (simp add: rowsLoop_Inl validPairs_mset[OF assms(2)])
next
  fix m m'
  assume both: "normalizeEncounterData P rows = Inr m \<and> normalizeEncounterData P rows' = Inr m'"
  let ?cmp = "\<lambda>a b. localeCompare P (versionLabel P a) (versionLabel P b)"
  from both have m: "normalizeEncounterData P rows = Inr m"
    and m': "normalizeEncounterData P rows' = Inr m'" by simp_all
  from m obtain g where wf: "wellFormed g" and pairs: "pairsOf g = validPairs rows"
    and vs: "versions m = arraySort ?cmp (objectKeys g)"
    and bv: "byVersion m = buildNormalized g (versions m) Map.empty"
    by (rule normalizeEncounterData_Inr)
  from m' obtain g' where wf': "wellFormed g'" and pairs0: "pairsOf g' = validPairs rows'"
    and vs': "versions m' = arraySort ?cmp (objectKeys g')"
    and bv': "byVersion m' = buildNormalized g' (versions m') Map.empty"
    by (rule normalizeEncounterData_Inr)
  from pairs0 have pairs': "pairsOf g' = validPairs rows"
    by (simp add: validPairs_mset[OF assms(2)])
  have keys: "set (versions m') = set (versions m)"
    using keys_pairsOf[OF wf] keys_pairsOf[OF wf']
    by (simp add: vs vs' set_arraySort set_objectKeys pairs pairs')
  have dist: "distinct (versions m)" "distinct (versions m')"
    using wf wf' by (simp_all add: vs vs' distinct_arraySort distinct_objectKeys wellFormed_def)
  have locs: "arraySort codeUnitCompare (locationsOf g' v)
                = arraySort codeUnitCompare (locationsOf g v)" for v
    using locationsOf_wellFormed[OF wf, of v] locationsOf_wellFormed[OF wf', of v]
    by (intro arraySort_codeUnitCompare_unique) (simp_all add: pairs pairs')
  show same_map: "byVersion m' = byVersion m"
    by (rule ext) (simp add: bv bv' buildNormalized_apply keys locs)
  show "mset (versions m') = mset (versions m)"
    using keys dist by (simp add: set_eq_iff_mset_eq_distinct)
  assume ties: "\<forall>a\<in>set (versions m). \<forall>b\<in>set (versions m).
                 localeCompare P (versionLabel P a) (versionLabel P b) = 0 \<longrightarrow> a = b"
  have cons: "consistentComparator ?cmp" by (rule consistent_on_key[OF assms(1)])
  have "versions m' = versions m"
  proof (rule sorted_distinct_unique[where cmp = ?cmp])
    show "sorted_wrt (\<lambda>a b. ?cmp a b \<le> 0) (versions m')"
      unfolding vs' by (rule sorted_arraySort[OF cons])
    show "sorted_wrt (\<lambda>a b. ?cmp a b \<le> 0) (versions m)"
      unfolding vs by (rule sorted_arraySort[OF cons])
    show "distinct (versions m')" "distinct (versions m)" using dist by simp_all
    show "set (versions m') = set (versions m)" by (rule keys)
    show "\<forall>a\<in>set (versions m'). \<forall>b\<in>set (versions m').
            ?cmp a b \<le> 0 \<and> ?cmp b a \<le> 0 \<longrightarrow> a = b"
    proof (intro ballI impI)
      fix a b assume ab: "a \<in> set (versions m')" "b \<in> set (versions m')"
        and le: "?cmp a b \<le> 0 \<and> ?cmp b a \<le> 0"
      from cons have "?cmp a b < 0 \<longleftrightarrow> 0 < ?cmp b a"
        unfolding consistentComparator_def by blast
      with le have "?cmp a b = 0" by linarith
      with ties ab keys show "a = b" by simp
    qed
  qed
  with same_map show "m' = m" by simp
qed

theorem normalizeEncounterData_permutation_witness:
  "normalizeEncounterData refPlatform (rev exampleRows) = normalizeEncounterData refPlatform exampleRows"
proof -
  have perm: "mset (rev exampleRows) = mset exampleRows" by simp
  obtain m' where m': "normalizeEncounterData refPlatform (rev exampleRows) = Inr m'"
    using normalizeEncounterData_Inr_iff[of refPlatform "rev exampleRows"]
      normalizeEncounterData_Inr_iff[of refPlatform exampleRows]
      exampleRows_normalized validPairs_mset[OF perm]
    by auto
  let ?m = "\<lparr>versions = [lit ''heartgold'', lit ''hearta'', lit ''red''],
          byVersion = [lit ''heartgold'' \<mapsto> [lit ''route-1''],
                       lit ''hearta'' \<mapsto> [lit ''route-2''],
                       lit ''red'' \<mapsto> [lit ''route-1'', lit ''route-2'']]\<rparr>"
  have "m' = ?m"
    using normalizeEncounterData_permutation [OF consistent_refPlatform perm]
      exampleRows_normalized m'
    by (simp add: refPlatform_def versionLabel_def VERSION_LABELS_def titleCase_def
        capitalize_def isTitleSeparator_def isWhiteSpace_def asciiUpper_def lit_def)
  with m' exampleRows_normalized show ?thesis by simp
qed

section \<open>Invariants of the application\<close>

lemma nth_list_update_total:
  "xs[i := x] ! j = (if i = j \<and> i < length xs then x else xs ! j)"
  by (cases "i < length xs") (auto simp: nth_list_update list_update_beyond)

lemma cleanupDetail_fields [simp]:
  "items (cleanupDetail s) = items s" "selectedIndex (cleanupDetail s) = selectedIndex s"
  "viewMode (cleanupDetail s) = viewMode s" "panels (cleanupDetail s) = panels s"
  "mounted (cleanupDetail s) = mounted s" "listPending (cleanupDetail s) = listPending s"
  "detailEffect (cleanupDetail s) = detailEffect s"
  "length (detailTasks (cleanupDetail s)) = length (detailTasks s)"
  by (simp_all add: cleanupDetail_def split: option.splits)

lemma runDetailEffect_fields [simp]:
  "items (runDetailEffect s) = items s" "selectedIndex (runDetailEffect s) = selectedIndex s"
  "viewMode (runDetailEffect s) = viewMode s" "panels (runDetailEffect s) = panels s"
  "mounted (runDetailEffect s) = mounted s" "listPending (runDetailEffect s) = listPending s"
  by (simp_all add: runDetailEffect_def Let_def)

lemma syncPanel_fields [simp]:
  "items (syncPanel s) = items s" "selectedIndex (syncPanel s) = selectedIndex s"
  "viewMode (syncPanel s) = viewMode s" "detailTasks (syncPanel s) = detailTasks s"
  "detailEffect (syncPanel s) = detailEffect s" "listPending (syncPanel s) = listPending s"
  by (simp_all add: syncPanel_def mountPanel_def split: option.splits)

lemma unmountPanel_fields [simp]:
  "items (unmountPanel s) = items s" "selectedIndex (unmountPanel s) = selectedIndex s"
  "viewMode (unmountPanel s) = viewMode s" "detailTasks (unmountPanel s) = detailTasks s"
  "detailEffect (unmountPanel s) = detailEffect s" "listPending (unmountPanel s) = listPending s"
  "mounted (unmountPanel s) = None" "length (panels (unmountPanel s)) = length (panels s)"
  by (simp_all add: unmountPanel_def split: option.splits)

lemma exitComplete_fields [simp]:
  "items (exitComplete s) = items s" "selectedIndex (exitComplete s) = selectedIndex s"
  "viewMode (exitComplete s) = viewMode s" "detailTasks (exitComplete s) = detailTasks s"
  "detailEffect (exitComplete s) = detailEffect s" "listPending (exitComplete s) = listPending s"
  by (simp_all add: exitComplete_def)

lemma speciesResolved_fields [simp]:
  "items (speciesResolved t r s) = items s"
  "selectedIndex (speciesResolved t r s) = selectedIndex s"
  "viewMode (speciesResolved t r s) = viewMode s"
  "detailTasks (speciesResolved t r s) = detailTasks s"
  "detailEffect (speciesResolved t r s) = detailEffect s"
  "listPending (speciesResolved t r s) = listPending s"
  "mounted (speciesResolved t r s) = mounted s"
  "length (panels (speciesResolved t r s)) = length (panels s)"
  by (simp_all add: speciesResolved_def Let_def)

lemma encountersResolved_fields [simp]:
  "items (encountersResolved P t r s) = items s"
  "selectedIndex (encountersResolved P t r s) = selectedIndex s"
  "viewMode (encountersResolved P t r s) = viewMode s"
  "detailTasks (encountersResolved P t r s) = detailTasks s"
  "detailEffect (encountersResolved P t r s) = detailEffect s"
  "listPending (encountersResolved P t r s) = listPending s"
  "mounted (encountersResolved P t r s) = mounted s"
  "length (panels (encountersResolved P t r s)) = length (panels s)"
  by (simp_all add: encountersResolved_def Let_def)

subsection \<open>The detail effect\<close>

lemma cleanupDetail_dead:
  assumes "\<forall>t < length (detailTasks s). dt_alive (detailTasks s ! t) \<longrightarrow> detailEffect s = Some t"
    and "t < length (detailTasks s)"
  shows "\<not> dt_alive (detailTasks (cleanupDetail s) ! t)"
proof (cases "detailEffect s")
  case None
  with assms show ?thesis by (auto simp: cleanupDetail_def)
next
  case (Some u)
  with assms show ?thesis
    by (cases "t = u") (auto simp: cleanupDetail_def nth_list_update_total)
qed

lemma cleanupDetail_index:
  "dt_index (detailTasks (cleanupDetail s) ! t) = dt_index (detailTasks s ! t)"
  by (auto simp: cleanupDetail_def nth_list_update_total split: option.splits)

lemma cleanupDetail_stays_dead:
  "\<not> dt_alive (detailTasks s ! t) \<Longrightarrow> \<not> dt_alive (detailTasks (cleanupDetail s) ! t)"
  by (auto simp: cleanupDetail_def nth_list_update_total split: option.splits)

lemma runDetailEffect_length: "length (detailTasks s) \<le> length (detailTasks (runDetailEffect s))"
  by (simp add: runDetailEffect_def Let_def)

lemma runDetailEffect_dead:
  assumes "\<forall>t < length (detailTasks s). dt_alive (detailTasks s ! t) \<longrightarrow> detailEffect s = Some t"
    and "t < length (detailTasks s)"
  shows "\<not> dt_alive (detailTasks (runDetailEffect s) ! t)"
  using cleanupDetail_dead[OF assms] assms(2)
  by (simp add: runDetailEffect_def Let_def nth_append)

lemma runDetailEffect_stays_dead:
  assumes "t < length (detailTasks s)" and "\<not> dt_alive (detailTasks s ! t)"
  shows "\<not> dt_alive (detailTasks (runDetailEffect s) ! t)"
  using cleanupDetail_stays_dead[OF assms(2)] assms(1)
  by (simp add: runDetailEffect_def Let_def nth_append)

lemma runDetailEffect_detailInv:
  assumes "detailInv s"
  shows "detailInv (runDetailEffect s)"
proof -
  let ?c = "cleanupDetail s"
  from assms have a: "\<forall>t < length (detailTasks s). dt_alive (detailTasks s ! t) \<longrightarrow> detailEffect s = Some t"
    and b: "\<forall>t < length (detailTasks s). dt_index (detailTasks s ! t) < length (items s)"
    and c: "listPending s \<longrightarrow> items s = [] \<and> detailTasks s = []"
    by (simp_all add: detailInv_def)
  have dead: "\<forall>t < length (detailTasks ?c). \<not> dt_alive (detailTasks ?c ! t)"
    using cleanupDetail_dead[OF a] by simp
  have idx: "\<forall>t < length (detailTasks ?c). dt_index (detailTasks ?c ! t) < length (items s)"
    using b by (simp add: cleanupDetail_index)
  have pend: "listPending s \<longrightarrow> items s = [] \<and> detailTasks ?c = []"
    using c by (auto simp: cleanupDetail_def split: option.splits)
  show ?thesis
    unfolding detailInv_def runDetailEffect_def Let_def
    using dead idx pend by (auto simp: nth_append)
qed

lemma detailInv_updates [simp]:
  "detailInv (s\<lparr>viewMode := v\<rparr>) = detailInv s"
  "detailInv (s\<lparr>selectedIndex := j\<rparr>) = detailInv s"
  by (simp_all add: detailInv_def)

lemma syncPanel_detailInv [simp]: "detailInv (syncPanel s) = detailInv s"
  by (simp add: detailInv_def)

lemma exitComplete_detailInv [simp]: "detailInv (exitComplete s) = detailInv s"
  by (simp add: detailInv_def)

lemma speciesResolved_detailInv [simp]: "detailInv (speciesResolved t r s) = detailInv s"
  by (simp add: detailInv_def)

lemma encountersResolved_detailInv [simp]: "detailInv (encountersResolved P t r s) = detailInv s"
  by (simp add: detailInv_def)

lemma selectIndex_detailInv: "detailInv s \<Longrightarrow> detailInv (selectIndex j s)"
proof -
  assume inv: "detailInv s"
  have "detailInv (s\<lparr>selectedIndex := j\<rparr>)"
    using inv by (simp add: detailInv_def)
  then have "detailInv (runDetailEffect (s\<lparr>selectedIndex := j\<rparr>))"
    by (rule runDetailEffect_detailInv)
  with inv show ?thesis by (simp add: selectIndex_def)
qed

lemma detailResolved_detailInv: "detailInv s \<Longrightarrow> detailInv (detailResolved t r s)"
proof -
  assume inv: "detailInv s"
  show ?thesis
  proof (cases "length (detailTasks s) \<le> t \<or> dt_settled (detailTasks s ! t)")
    case True
    with inv show ?thesis by (simp add: detailResolved_def)
  next
    case False
    let ?task = "detailTasks s ! t"
    let ?s1 = "s\<lparr>detailTasks := (detailTasks s)[t := ?task\<lparr>dt_settled := True\<rparr>]\<rparr>"
    have inv1: "detailInv ?s1"
      using inv False by (auto simp: detailInv_def nth_list_update_total)
    show ?thesis
    proof (cases r)
      case None
      with False inv1 show ?thesis by (simp add: detailResolved_def Let_def)
    next
      case (Some full)
      show ?thesis
      proof (cases "dt_alive ?task")
        case dead: False
        with False Some inv1 show ?thesis by (simp add: detailResolved_def Let_def)
      next
        case True
        let ?s2 = "?s1\<lparr>items := (items ?s1)[dt_index ?task :=
                      enrich (items ?s1 ! dt_index ?task) full (pk_sprite (dt_cur ?task))]\<rparr>"
        have "detailInv ?s2"
          using inv1 by (simp add: detailInv_def)
        then have "detailInv (runDetailEffect ?s2)" by (rule runDetailEffect_detailInv)
        with False Some True show ?thesis by (simp add: detailResolved_def Let_def)
      qed
    qed
  qed
qed

lemma step_detailInv: "detailInv s \<Longrightarrow> detailInv (step P e s)"
proof (cases e)
  case (ListLoaded r)
  assume inv: "detailInv s"
  show ?thesis
  proof (cases "listPending s")
    case False
    with inv ListLoaded show ?thesis by simp
  next
    case True
    with inv have empty: "detailTasks s = []" by (simp add: detailInv_def)
    have "detailInv (s\<lparr>items := xs, selectedIndex := k, loading := False, listPending := False\<rparr>)"
      for xs k
      using empty by (simp add: detailInv_def)
    then have a: "detailInv (syncPanel (runDetailEffect
        (s\<lparr>items := xs, selectedIndex := k, loading := False, listPending := False\<rparr>)))" for xs k
      by (simp add: runDetailEffect_detailInv)
    have "detailInv (s\<lparr>items := [], loading := False, listPending := False\<rparr>)"
      using empty by (simp add: detailInv_def)
    then have b: "detailInv (syncPanel (runDetailEffect
        (s\<lparr>items := [], loading := False, listPending := False\<rparr>)))"
      by (simp add: runDetailEffect_detailInv)
    from a b True ListLoaded show ?thesis by (simp split: option.splits)
  qed
next
  case (SetSelectedIndex j)
  assume "detailInv s"
  with SetSelectedIndex show ?thesis by (simp add: selectIndex_detailInv)
next
  case Prev
  assume "detailInv s"
  with Prev show ?thesis by (simp add: selectIndex_detailInv)
next
  case Next
  assume "detailInv s"
  with Next show ?thesis by (simp add: selectIndex_detailInv)
next
  case (SetView v)
  assume "detailInv s"
  with SetView show ?thesis by (simp add: detailInv_def)
next
  case (JumpToId i)
  assume inv: "detailInv s"
  show ?thesis
  proof (cases "findIndex (\<lambda>p. pk_id p = i) (items s)")
    case None
    with inv JumpToId show ?thesis by simp
  next
    case (Some idx)
    let ?s1 = "s\<lparr>viewMode := DexView, selectedIndex := idx\<rparr>"
    have s1: "detailInv ?s1" using inv by simp
    then have "detailInv (runDetailEffect ?s1)" by (rule runDetailEffect_detailInv)
    with inv Some JumpToId show ?thesis by (simp add: Let_def)
  qed
next
  case (DetailResolved t r)
  assume "detailInv s"
  with DetailResolved show ?thesis by (simp add: detailResolved_detailInv)
next
  case (SpeciesResolved t r)
  assume "detailInv s"
  with SpeciesResolved show ?thesis by simp
next
  case (EncountersResolved t r)
  assume "detailInv s"
  with EncountersResolved show ?thesis by simp
next
  case ExitComplete
  assume "detailInv s"
  with ExitComplete show ?thesis by simp
qed

subsection \<open>A detail task that is no longer alive\<close>

lemma deadTask_runDetailEffect: "deadTask t s \<Longrightarrow> deadTask t (runDetailEffect s)"
  using runDetailEffect_stays_dead[of t s] runDetailEffect_length[of s]
  by (auto simp: deadTask_def)

lemma deadTask_updates [simp]:
  "deadTask t (s\<lparr>viewMode := v\<rparr>) = deadTask t s"
  "deadTask t (s\<lparr>selectedIndex := j\<rparr>) = deadTask t s"
  "deadTask t (s\<lparr>items := xs\<rparr>) = deadTask t s"
  "deadTask t (s\<lparr>loading := b\<rparr>) = deadTask t s"
  "deadTask t (s\<lparr>listPending := b\<rparr>) = deadTask t s"
  "deadTask t (syncPanel s) = deadTask t s"
  "deadTask t (speciesResolved u r s) = deadTask t s"
  "deadTask t (encountersResolved P u r' s) = deadTask t s"
  "deadTask t (exitComplete s) = deadTask t s"
  by (simp_all add: deadTask_def)

lemma deadTask_settle:
  "deadTask t s \<Longrightarrow>
     deadTask t (s\<lparr>detailTasks := (detailTasks s)[u := (detailTasks s ! u)\<lparr>dt_settled := True\<rparr>]\<rparr>)"
  by (auto simp: deadTask_def nth_list_update_total)

lemma deadTask_selectIndex: "deadTask t s \<Longrightarrow> deadTask t (selectIndex j s)"
  by (simp add: selectIndex_def deadTask_runDetailEffect)

lemma deadTask_detailResolved: "deadTask t s \<Longrightarrow> deadTask t (detailResolved u r s)"
proof -
  assume d: "deadTask t s"
  let ?s1 = "s\<lparr>detailTasks := (detailTasks s)[u := (detailTasks s ! u)\<lparr>dt_settled := True\<rparr>]\<rparr>"
  have d1: "deadTask t ?s1" using d by (rule deadTask_settle)
  then have "deadTask t (runDetailEffect (?s1\<lparr>items := xs\<rparr>))" for xs
    by (intro deadTask_runDetailEffect) simp
  with d d1 show ?thesis
    by (auto simp: detailResolved_def Let_def split: option.splits)
qed

lemma deadTask_step: "deadTask t s \<Longrightarrow> deadTask t (step P e s)"
proof (cases e)
  case (ListLoaded r)
  assume d: "deadTask t s"
  have "deadTask t (runDetailEffect
      (s\<lparr>items := xs, selectedIndex := 0, loading := False, listPending := False\<rparr>))" for xs
    using d by (intro deadTask_runDetailEffect) simp
  moreover have "deadTask t (runDetailEffect
      (s\<lparr>items := [], loading := False, listPending := False\<rparr>))"
    using d by (intro deadTask_runDetailEffect) simp
  ultimately show ?thesis using d ListLoaded by (simp split: option.splits)
next
  case (JumpToId i)
  assume d: "deadTask t s"
  have "deadTask t (runDetailEffect (s\<lparr>viewMode := DexView, selectedIndex := idx\<rparr>))" for idx
    using d by (intro deadTask_runDetailEffect) simp
  with d JumpToId show ?thesis by (simp add: Let_def split: option.splits)
qed (simp_all add: deadTask_selectIndex deadTask_detailResolved)

lemma deadTask_run: "deadTask t s \<Longrightarrow> deadTask t (run P evs s)"
  by (induction evs arbitrary: s) (simp_all add: deadTask_step)

text \<open>A change of the selection leaves no earlier detail task alive.\<close>

lemma selectIndex_kills:
  assumes "detailInv s" and "j \<noteq> selectedIndex s" and "t < length (detailTasks s)"
  shows "deadTask t (selectIndex j s)"
proof -
  from assms(1) have "\<forall>t < length (detailTasks (s\<lparr>selectedIndex := j\<rparr>)).
      dt_alive (detailTasks (s\<lparr>selectedIndex := j\<rparr>) ! t)
        \<longrightarrow> detailEffect (s\<lparr>selectedIndex := j\<rparr>) = Some t"
    by (simp add: detailInv_def)
  from runDetailEffect_dead[OF this, of t] assms(3)
  have "\<not> dt_alive (detailTasks (runDetailEffect (s\<lparr>selectedIndex := j\<rparr>)) ! t)" by simp
  moreover have "t < length (detailTasks (runDetailEffect (s\<lparr>selectedIndex := j\<rparr>)))"
    using runDetailEffect_length[of "s\<lparr>selectedIndex := j\<rparr>"] assms(3) by simp
  ultimately show ?thesis using assms(2) by (simp add: selectIndex_def deadTask_def)
qed

text \<open>The result of a task that is not alive changes nothing but the task itself.\<close>

lemma detailResolved_dead:
  assumes "deadTask t s"
  shows "items (detailResolved t r s) = items s \<and> selectedIndex (detailResolved t r s) = selectedIndex s
    \<and> panels (detailResolved t r s) = panels s \<and> mounted (detailResolved t r s) = mounted s"
  using assms by (auto simp: detailResolved_def deadTask_def Let_def split: option.splits)

lemma detailInv_initial: "detailInv initialApp"
  by (simp add: detailInv_def initialApp_def)

lemma detailInv_run: "detailInv s \<Longrightarrow> detailInv (run P evs s)"
  by (induction evs arbitrary: s) (simp_all add: step_detailInv)

text \<open>The result of the task of the latest run, still alive, enriches its record.\<close>

lemma detailResolved_alive:
  assumes "t < length (detailTasks s)" and "dt_alive (detailTasks s ! t)"
    and "\<not> dt_settled (detailTasks s ! t)" and "dt_index (detailTasks s ! t) < length (items s)"
  shows "pk_types (items (detailResolved t (Some full) s) ! dt_index (detailTasks s ! t))
           = Some (full_types full)"
  using assms by (simp add: detailResolved_def Let_def enrich_def)

lemmas app_eval =
  initialApp_def selectIndex_def detailResolved_def speciesResolved_def encountersResolved_def
  syncPanel_def exitComplete_def exiting_def runDetailEffect_def cleanupDetail_def
  panelKey_def mountedKey_def
  unmountPanel_def mountPanel_def freshPanel_def stubs_def enumerate_eq_zip Let_def
  exampleNames_def exampleDetail_def enrich_def truthyOr_def

text \<open>
  C9 as stated fails. The list arrives with three names; the user selects the second
  record, whose detail request is task 1, and then the first record again; when the result
  of task 1 arrives, the second record is still a stub.
\<close>

theorem stale_detail_not_applied_counterexample:
  "pk_types (items (run refPlatform
       [ListLoaded (Some exampleNames), SetSelectedIndex 1, SetSelectedIndex 0,
        DetailResolved 1 (Some exampleDetail)] initialApp) ! 1) = None
   \<and> dt_index (detailTasks (run refPlatform
       [ListLoaded (Some exampleNames), SetSelectedIndex 1, SetSelectedIndex 0] initialApp) ! 1) = 1
   \<and> pk_types (items (run refPlatform
       [ListLoaded (Some exampleNames), SetSelectedIndex 1,
        DetailResolved 1 (Some exampleDetail)] initialApp) ! 1) = Some [lit ''grass'']"
  by (simp add: app_eval)

text \<open>
  C9, amended: when the user changes the selection after a detail request was issued and
  before it resolves, the result is dropped when it arrives, whatever happens in between:
  the list of records, the selection and the panels stay as they are, so the record at the
  original index of the request is not enriched by it.
\<close>

theorem stale_detail_result_dropped:
  assumes "s = run P before initialApp" and "t < length (detailTasks s)"
    and "j \<noteq> selectedIndex s"
    and "s' = run P between (step P (SetSelectedIndex j) s)"
  shows "items (step P (DetailResolved t r) s') = items s'
    \<and> selectedIndex (step P (DetailResolved t r) s') = selectedIndex s'
    \<and> panels (step P (DetailResolved t r) s') = panels s'
    \<and> mounted (step P (DetailResolved t r) s') = mounted s'"
proof -
  have "detailInv s" unfolding assms(1) by (rule detailInv_run[OF detailInv_initial])
  then have "deadTask t (step P (SetSelectedIndex j) s)"
    using assms(2,3) by (simp add: selectIndex_kills)
  then have "deadTask t s'" unfolding assms(4) by (rule deadTask_run)
  then show ?thesis using detailResolved_dead[of t s' r] by simp
qed

theorem stale_detail_result_dropped_witness:
  "items (run refPlatform
       [ListLoaded (Some exampleNames), SetSelectedIndex 1, SetSelectedIndex 0,
        SpeciesResolved 0 None, DetailResolved 1 (Some exampleDetail)] initialApp)
   = items (run refPlatform
       [ListLoaded (Some exampleNames), SetSelectedIndex 1, SetSelectedIndex 0,
        SpeciesResolved 0 None] initialApp)"
proof -
  let ?s = "run refPlatform [ListLoaded (Some exampleNames), SetSelectedIndex 1] initialApp"
  let ?s' = "run refPlatform [SpeciesResolved 0 None] (step refPlatform (SetSelectedIndex 0) ?s)"
  have issued: "1 < length (detailTasks ?s)" by (simp add: app_eval)
  have changed: "0 \<noteq> selectedIndex ?s" by (simp add: app_eval)
  have "items (step refPlatform (DetailResolved 1 (Some exampleDetail)) ?s') = items ?s'"
    using stale_detail_result_dropped [where P = refPlatform and r = "Some exampleDetail"
        and between = "[SpeciesResolved 0 None]", OF refl issued changed refl]
    by blast
  then show ?thesis by simp
qed

subsection \<open>The panel instances\<close>






lemma panelsOk_updates [simp]:
  "panelsOk (s\<lparr>viewMode := v\<rparr>) = panelsOk s"
  "panelsOk (s\<lparr>selectedIndex := j\<rparr>) = panelsOk s"
  "panelsOk (s\<lparr>items := xs\<rparr>) = panelsOk s"
  "panelsOk (s\<lparr>loading := b\<rparr>) = panelsOk s"
  "panelsOk (s\<lparr>listPending := b\<rparr>) = panelsOk s"
  "panelsOk (s\<lparr>detailTasks := ts\<rparr>) = panelsOk s"
  "panelsOk (runDetailEffect s) = panelsOk s"
  by (simp_all add: panelsOk_def)

lemma panelKey_unchanged [simp]:
  "panelKey (syncPanel s) = panelKey s"
  "panelKey (unmountPanel s) = panelKey s"
  "panelKey (exitComplete s) = panelKey s"
  "panelKey (runDetailEffect s) = panelKey s"
  "panelKey (speciesResolved t r s) = panelKey s"
  "panelKey (encountersResolved P t r' s) = panelKey s"
  by (simp_all add: panelKey_def)










lemma panelInv_detailTasks [simp]: "panelInv (s\<lparr>detailTasks := ts\<rparr>) = panelInv s"
  by (simp add: panelInv_def panelKey_def)









section \<open>The displayed encounter map\<close>




text \<open>
  In both orders of the late result and the end of the exit animation, the panel for the
  first record starts without a map, and its map is set by its own request.
\<close>

lemma scenario_late_result_during_exit:
  "mounted (run refPlatform
       (scenario @ [EncountersResolved 1 (Some exampleRows), ExitComplete]) initialApp) = Some 2
   \<and> pokemon_id (panels (run refPlatform
       (scenario @ [EncountersResolved 1 (Some exampleRows), ExitComplete]) initialApp) ! 2) = 1
   \<and> enc (panels (run refPlatform
       (scenario @ [EncountersResolved 1 (Some exampleRows), ExitComplete]) initialApp) ! 2) = None"
  by (simp add: scenario_def app_eval exampleRows_normalized)

lemma scenario_own_result:
  "encFor (panels (run refPlatform
       (scenario @ [ExitComplete, EncountersResolved 1 (Some exampleRows), SpeciesResolved 2 None,
                    EncountersResolved 2 (Some [rowOf ''route-1'' [''red'']])]) initialApp) ! 2)
     = Some 1
   \<and> map_option versions (enc (panels (run refPlatform
       (scenario @ [ExitComplete, EncountersResolved 1 (Some exampleRows), SpeciesResolved 2 None,
                    EncountersResolved 2 (Some [rowOf ''route-1'' [''red'']])]) initialApp) ! 2))
     = Some [lit ''red'']"
  by (simp add: scenario_def app_eval normalize_eval)

end
